theory Spec2Isabelle
  imports Main "HOL-Library.Word" "HOL-Library.Multiset"
begin

unbundle bit_operations_syntax

section \<open>Data model of package generator\<close>

text \<open>
  Go's \<open>int\<close> is a 64-bit two's complement integer on every platform the repository
  builds for (amd64 and arm64): \<open>+\<close> and \<open>*\<close> wrap around, comparisons are signed
  (\<open>sint\<close>). A rune of the generator is always an ASCII character, so a string of the
  program is a \<open>char list\<close> and the byte index of \<open>range\<close> over a string is the rune
  index. The functions and fields keep the names of the source; the parameter \<open>o\<close> is
  written \<open>opts\<close> and the parameter \<open>set\<close> is written \<open>charset\<close>, since Isabelle uses
  both names.
\<close>

type_synonym go_int = "64 word"
type_synonym rune = char
type_synonym byte = "8 word"

text \<open>\<open>type Format string\<close> with its three constants.\<close>

type_synonym Format = string

definition FormatGeneric :: Format where
  "FormatGeneric = ''generic''"

definition FormatAppKey :: Format where
  "FormatAppKey = ''appkey''"

definition FormatGUID :: Format where
  "FormatGUID = ''guid''"

text \<open>The character class rune slices.\<close>

definition lowerChars :: "rune list" where
  "lowerChars = ''abcdefghijklmnopqrstuvwxyz''"

definition upperChars :: "rune list" where
  "upperChars = ''ABCDEFGHIJKLMNOPQRSTUVWXYZ''"

definition numberChars :: "rune list" where
  "numberChars = ''0123456789''"

definition symbolChars :: "rune list" where
  "symbolChars = ''!@#$%^&*()-_=+[]{};:,.?/<>~''"

record Options =
  Format :: Format
  Length :: go_int
  UseLower :: bool
  UseUpper :: bool
  UseNumber :: bool
  UseSymbol :: bool
  MinLower :: go_int
  MinUpper :: go_int
  MinNumber :: go_int
  MinSymbol :: go_int
  Segments :: go_int
  SegmentLength :: go_int

text \<open>
  The errors of the package, one constructor per \<open>errors.New\<close> / \<open>fmt.Errorf\<close> of the
  source (the message in the comment; the four messages for a minimum on a disabled class
  are one constructor with the class), and the error of the secure random source, which
  the code hands on as it is.
\<close>

datatype char_class = Lowercase | Uppercase | Numbers | Symbols

datatype error =
    LengthNotPositive                \<comment> \<open>"length must be > 0"\<close>
  | MinimaExceedLength go_int go_int \<comment> \<open>"sum of minimum counts (%d) exceeds requested length %d"\<close>
  | InvalidSegmentCount              \<comment> \<open>"segments must be > 0"\<close>
  | InvalidSegmentLength             \<comment> \<open>"segment-length must be > 0"\<close>
  | DisabledClassMinimum char_class    \<comment> \<open>"min-lower specified but lowercase disabled", ...\<close>
  | NoClassesEnabled                 \<comment> \<open>"no character classes enabled"\<close>
  | NegativeMinimum                  \<comment> \<open>"minimum counts cannot be negative"\<close>
  | EmptyCharacterSet                \<comment> \<open>"empty character set"\<close>
  | UnknownFormat Format             \<comment> \<open>"unknown format: %s"\<close>
  | EntropySourceFailure string      \<comment> \<open>the error returned by crypto/rand\<close>

text \<open>
  A Go call returns a value, returns an error, or panics (a run-time panic is not an
  error result: it unwinds through the caller).
\<close>

datatype 'a result = Ok 'a | Error error | Panic

section \<open>The secure random source\<close>

text \<open>
  \<open>crypto/rand\<close> is not code of the repository. Its behaviour is a parameter of the
  model: \<open>src k\<close> is what the \<open>k\<close>-th call to the source does, either failing with an
  error or giving a number. \<open>rand.Int(rand.Reader, max)\<close> returns a value in
  \<open>[0, max)\<close> (the number reduced modulo \<open>max\<close>, so every value of the range is
  possible) and panics for \<open>max \<le> 0\<close>; \<open>rand.Read(b)\<close> fills all of \<open>b\<close> (the
  base-256 digits of the number, so every byte string is possible). The state threaded
  through the generator is the number of calls made so far.
\<close>

datatype event = Fails string | Gives nat

type_synonym entropy = "nat \<Rightarrow> event"

definition rand_Int :: "entropy \<Rightarrow> nat \<Rightarrow> nat \<Rightarrow> (nat \<times> nat) result" where
  "rand_Int src k mx =
     (if mx = 0 then Panic
      else
        (case src k of
           Fails e \<Rightarrow> Error (EntropySourceFailure e)
         | Gives v \<Rightarrow> Ok (v mod mx, Suc k)))"

definition rand_Read :: "entropy \<Rightarrow> nat \<Rightarrow> nat \<Rightarrow> (byte list \<times> nat) result" where
  "rand_Read src k n =
     (case src k of
        Fails e \<Rightarrow> Error (EntropySourceFailure e)
      | Gives v \<Rightarrow> Ok (map (\<lambda>i. word_of_nat (v div 256 ^ i)) [0..<n], Suc k))"

section \<open>The generator\<close>

subsection \<open>collectClassesAndValidate\<close>

text \<open>
  The four \<open>if / else if\<close> blocks in the order of the source, each appending to
  \<open>sets\<close> and \<open>mins\<close> or returning its error; then the check for no class, then the
  check of the collected minima.
\<close>

definition collectClassesAndValidate :: "Options \<Rightarrow> (rune list list \<times> go_int list) result" where
  "collectClassesAndValidate opts =
     (let sets = []; mins = [] in
      if \<not> UseLower opts \<and> 0 < sint (MinLower opts) then Error (DisabledClassMinimum Lowercase) else
      let (sets, mins) = (if UseLower opts then (sets @ [lowerChars], mins @ [MinLower opts]) else (sets, mins)) in
      if \<not> UseUpper opts \<and> 0 < sint (MinUpper opts) then Error (DisabledClassMinimum Uppercase) else
      let (sets, mins) = (if UseUpper opts then (sets @ [upperChars], mins @ [MinUpper opts]) else (sets, mins)) in
      if \<not> UseNumber opts \<and> 0 < sint (MinNumber opts) then Error (DisabledClassMinimum Numbers) else
      let (sets, mins) = (if UseNumber opts then (sets @ [numberChars], mins @ [MinNumber opts]) else (sets, mins)) in
      if \<not> UseSymbol opts \<and> 0 < sint (MinSymbol opts) then Error (DisabledClassMinimum Symbols) else
      let (sets, mins) = (if UseSymbol opts then (sets @ [symbolChars], mins @ [MinSymbol opts]) else (sets, mins)) in
      if length sets = 0 then Error NoClassesEnabled
      else if \<exists>v \<in> set mins. sint v < 0 then Error NegativeMinimum
      else Ok (sets, mins))"

subsection \<open>concatClasses and randomRune\<close>

definition concatClasses :: "rune list list \<Rightarrow> rune list" where
  "concatClasses classes = concat classes"

definition randomRune :: "entropy \<Rightarrow> nat \<Rightarrow> rune list \<Rightarrow> (rune \<times> nat) result" where
  "randomRune src k charset =
     (if length charset = 0 then Error EmptyCharacterSet
      else
        (case rand_Int src k (length charset) of
           Error e \<Rightarrow> Error e
         | Panic \<Rightarrow> Panic
         | Ok (n, k') \<Rightarrow> Ok (charset ! n, k')))"

subsection \<open>shuffleRunes\<close>

text \<open>
  The loop \<open>for i := len(r) - 1; i > 0; i--\<close>. The error of \<open>rand.Int\<close> is discarded
  (\<open>jBig, _ := ...\<close>); when the source fails \<open>jBig\<close> is \<open>nil\<close> and \<open>jBig.Int64()\<close>
  dereferences it, which panics.
\<close>

fun shuffle_from :: "entropy \<Rightarrow> nat \<Rightarrow> rune list \<Rightarrow> nat \<Rightarrow> (rune list \<times> nat) result" where
  "shuffle_from src k r 0 = Ok (r, k)"
| "shuffle_from src k r (Suc i') =
     (let i = Suc i' in
      case rand_Int src k (i + 1) of
        Error e \<Rightarrow> Panic
      | Panic \<Rightarrow> Panic
      | Ok (j, k') \<Rightarrow> shuffle_from src k' (r[i := r ! j, j := r ! i]) i')"

definition shuffleRunes :: "entropy \<Rightarrow> nat \<Rightarrow> rune list \<Rightarrow> (rune list \<times> nat) result" where
  "shuffleRunes src k r = shuffle_from src k r (length r - 1)"

subsection \<open>generateGeneric\<close>

text \<open>\<open>totalMin += v\<close> over the minima: a wrapping sum of machine integers.\<close>

definition totalMin :: "go_int list \<Rightarrow> go_int" where
  "totalMin minima = foldl (+) 0 minima"

text \<open>
  The inner loop \<open>for c := 0; c < minCount; c++\<close>: \<open>n\<close> is the number of iterations
  left, \<open>nat (sint minCount)\<close> at the start (none for a negative count).
\<close>

fun draw_minimum :: "entropy \<Rightarrow> nat \<Rightarrow> rune list \<Rightarrow> nat \<Rightarrow> rune list \<Rightarrow> (rune list \<times> nat) result" where
  "draw_minimum src k charset 0 out = Ok (out, k)"
| "draw_minimum src k charset (Suc n) out =
     (case randomRune src k charset of
        Error e \<Rightarrow> Error e
      | Panic \<Rightarrow> Panic
      | Ok (r, k') \<Rightarrow> draw_minimum src k' charset n (out @ [r]))"

text \<open>
  The outer loop \<open>for i, set := range classSets\<close> with \<open>minima[i]\<close>; an index past the
  end of \<open>minima\<close> panics.
\<close>

fun satisfy_minima :: "entropy \<Rightarrow> nat \<Rightarrow> rune list list \<Rightarrow> go_int list \<Rightarrow> rune list \<Rightarrow> (rune list \<times> nat) result" where
  "satisfy_minima src k [] minima out = Ok (out, k)"
| "satisfy_minima src k (charset # classSets) [] out = Panic"
| "satisfy_minima src k (charset # classSets) (minCount # minima) out =
     (case draw_minimum src k charset (nat (sint minCount)) out of
        Error e \<Rightarrow> Error e
      | Panic \<Rightarrow> Panic
      | Ok (out', k') \<Rightarrow> satisfy_minima src k' classSets minima out')"

text \<open>The loop \<open>for len(out) < o.Length\<close>.\<close>

function fill_remainder :: "entropy \<Rightarrow> nat \<Rightarrow> rune list \<Rightarrow> go_int \<Rightarrow> rune list \<Rightarrow> (rune list \<times> nat) result" where
  "fill_remainder src k all len out =
     (if int (length out) < sint len then
        (case randomRune src k all of
           Error e \<Rightarrow> Error e
         | Panic \<Rightarrow> Panic
         | Ok (r, k') \<Rightarrow> fill_remainder src k' all len (out @ [r]))
      else Ok (out, k))"
  by pat_completeness auto
termination
  by (relation "measure (\<lambda>(src, k, all, len, out). nat (sint len - int (length out)))") auto

declare fill_remainder.simps [simp del]

text \<open>
  \<open>out := make([]rune, 0, o.Length)\<close>. The Go runtime (\<open>makeslice\<close>) panics with
  "makeslice: cap out of range" when the capacity is negative or the bytes it asks for,
  four for each rune, are more than the largest allocation \<open>maxAlloc\<close>, which is
  \<open>2 ^ 48\<close> bytes on amd64 and arm64. That limit is the runtime's and is no constant of
  the repository. Below it the model has all the memory it asks for: running out of
  memory, also when \<open>append\<close> grows the slice, is not modelled.
\<close>

definition maxAlloc :: int where
  "maxAlloc = 281474976710656"

definition make_runes :: "go_int \<Rightarrow> rune list result" where
  "make_runes cap = (if sint cap < 0 \<or> maxAlloc < 4 * sint cap then Panic else Ok [])"

definition generateGeneric :: "entropy \<Rightarrow> nat \<Rightarrow> Options \<Rightarrow> (string \<times> nat) result" where
  "generateGeneric src k opts =
     (if sint (Length opts) \<le> 0 then Error LengthNotPositive
      else
        (case collectClassesAndValidate opts of
           Error e \<Rightarrow> Error e
         | Panic \<Rightarrow> Panic
         | Ok (classSets, minima) \<Rightarrow>
             (if sint (Length opts) < sint (totalMin minima)
              then Error (MinimaExceedLength (totalMin minima) (Length opts))
              else
                (case make_runes (Length opts) of
                   Error e \<Rightarrow> Error e
                 | Panic \<Rightarrow> Panic
                 | Ok out0 \<Rightarrow>
                     (case satisfy_minima src k classSets minima out0 of
                        Error e \<Rightarrow> Error e
                      | Panic \<Rightarrow> Panic
                      | Ok (out, k1) \<Rightarrow>
                          (case fill_remainder src k1 (concatClasses classSets) (Length opts) out of
                             Error e \<Rightarrow> Error e
                           | Panic \<Rightarrow> Panic
                           | Ok (out', k2) \<Rightarrow> shuffleRunes src k2 out'))))))"

subsection \<open>generateAppKey\<close>

text \<open>
  The loop \<open>for i, r := range core\<close>: a dash before every rune whose index is positive
  and a multiple of the segment length (\<open>%\<close> on non-negative operands, the divisor
  positive). Before the loop \<open>b.Grow(total + (o.Segments - 1))\<close> panics when its
  argument, a wrapping sum, is negative ("strings.Builder.Grow: negative count") or more
  than \<open>maxAlloc\<close> bytes (the allocation of the buffer panics as \<open>make\<close> does).
\<close>

definition Grow_panics :: "go_int \<Rightarrow> bool" where
  "Grow_panics n = (sint n < 0 \<or> maxAlloc < sint n)"

fun write_segments :: "nat \<Rightarrow> nat \<Rightarrow> rune list \<Rightarrow> string" where
  "write_segments segLen i [] = []"
| "write_segments segLen i (r # core) =
     (if 0 < i \<and> i mod segLen = 0 then CHR ''-'' # r # write_segments segLen (Suc i) core
      else r # write_segments segLen (Suc i) core)"

definition generateAppKey :: "entropy \<Rightarrow> nat \<Rightarrow> Options \<Rightarrow> (string \<times> nat) result" where
  "generateAppKey src k opts =
     (if sint (Segments opts) \<le> 0 then Error InvalidSegmentCount
      else if sint (SegmentLength opts) \<le> 0 then Error InvalidSegmentLength
      else
        let total = Segments opts * SegmentLength opts;
            tmp = opts\<lparr>Length := total, Format := FormatGeneric\<rparr>
        in
          (case generateGeneric src k tmp of
             Error e \<Rightarrow> Error e
           | Panic \<Rightarrow> Panic
           | Ok (core, k') \<Rightarrow>
               (if Grow_panics (total + (Segments opts - 1)) then Panic
                else Ok (write_segments (nat (sint (SegmentLength opts))) 0 core, k'))))"

subsection \<open>generateUUIDv4\<close>

definition hexdigits :: string where
  "hexdigits = ''0123456789abcdef''"

definition hex :: "byte \<Rightarrow> string" where
  "hex x = [hexdigits ! unat (drop_bit 4 x), hexdigits ! unat (x AND 0x0F)]"

text \<open>The loop \<open>for i, v := range b\<close> with the dash after the bytes 3, 5, 7 and 9.\<close>

fun write_uuid :: "nat \<Rightarrow> byte list \<Rightarrow> string" where
  "write_uuid i [] = []"
| "write_uuid i (v # b) =
     hex v @ (if i = 3 \<or> i = 5 \<or> i = 7 \<or> i = 9 then ''-'' else []) @ write_uuid (Suc i) b"

definition set_version_variant :: "byte list \<Rightarrow> byte list" where
  "set_version_variant b =
     (let b = b[6 := (b ! 6 AND 0x0F) OR 0x40];
          b = b[8 := (b ! 8 AND 0x3F) OR 0x80]
      in b)"

definition generateUUIDv4 :: "entropy \<Rightarrow> nat \<Rightarrow> (string \<times> nat) result" where
  "generateUUIDv4 src k =
     (case rand_Read src k 16 of
        Error e \<Rightarrow> Error e
      | Panic \<Rightarrow> Panic
      | Ok (b, k') \<Rightarrow> Ok (write_uuid 0 (set_version_variant b), k'))"

subsection \<open>Generate\<close>

text \<open>
  The exported function, started on a source that has not been called yet; the caller
  sees the string or the error, not the state of the source.
\<close>

definition Generate_from :: "entropy \<Rightarrow> nat \<Rightarrow> Options \<Rightarrow> (string \<times> nat) result" where
  "Generate_from src k opts =
     (if Format opts = FormatGUID then generateUUIDv4 src k
      else if Format opts = FormatAppKey then generateAppKey src k opts
      else if Format opts = FormatGeneric then generateGeneric src k opts
      else Error (UnknownFormat (Format opts)))"

definition Generate :: "entropy \<Rightarrow> Options \<Rightarrow> string result" where
  "Generate src opts =
     (case Generate_from src 0 opts of
        Error e \<Rightarrow> Error e
      | Panic \<Rightarrow> Panic
      | Ok (s, k) \<Rightarrow> Ok s)"

text \<open>\<open>DefaultOptions\<close>; the fields it does not set have Go's zero values.\<close>

definition DefaultOptions :: Options where
  "DefaultOptions =
     \<lparr>Format = FormatGeneric, Length = 16,
      UseLower = True, UseUpper = True, UseNumber = True, UseSymbol = True,
      MinLower = 0, MinUpper = 0, MinNumber = 0, MinSymbol = 0,
      Segments = 0, SegmentLength = 0\<rparr>"

section \<open>Notions used in the statements\<close>

text \<open>
  The class pool of a configuration: the toggled-on classes with their minima, in the
  order in which \<open>collectClassesAndValidate\<close> appends them.
\<close>

definition pool :: "Options \<Rightarrow> (rune list \<times> go_int) list" where
  "pool opts =
     (if UseLower opts then [(lowerChars, MinLower opts)] else []) @
     (if UseUpper opts then [(upperChars, MinUpper opts)] else []) @
     (if UseNumber opts then [(numberChars, MinNumber opts)] else []) @
     (if UseSymbol opts then [(symbolChars, MinSymbol opts)] else [])"

text \<open>The errors a draw can end in: an empty set, or the failure of the source.\<close>

definition draw_error :: "error \<Rightarrow> bool" where
  "draw_error e = (case e of EmptyCharacterSet \<Rightarrow> True | EntropySourceFailure m \<Rightarrow> True | _ \<Rightarrow> False)"

text \<open>How many runes of a string belong to a class.\<close>

definition count_class :: "rune list \<Rightarrow> string \<Rightarrow> nat" where
  "count_class cs s = length (filter (\<lambda>c. c \<in> set cs) s)"

text \<open>A block of runes drawn for one entry of the pool: as many as its minimum, all of its class.\<close>

definition block_of :: "rune list \<Rightarrow> rune list \<times> go_int \<Rightarrow> bool" where
  "block_of b p = (length b = nat (sint (snd p)) \<and> set b \<subseteq> set (fst p))"

text \<open>
  The runes of an output that the generator drew. A generic output consists of them; an
  app-key output has a separator before every rune whose index among the drawn runes is
  a positive multiple of the segment length, and \<open>generated_runes\<close> leaves out the
  character at each of these places (a dash that was drawn from the symbols stays).
\<close>

fun generated_runes :: "nat \<Rightarrow> nat \<Rightarrow> string \<Rightarrow> string" where
  "generated_runes segLen i [] = []"
| "generated_runes segLen i [c] = (if 0 < i \<and> i mod segLen = 0 then [] else [c])"
| "generated_runes segLen i (c # r # s) =
     (if 0 < i \<and> i mod segLen = 0 then r # generated_runes segLen (Suc i) s
      else c # generated_runes segLen (Suc i) (r # s))"

definition core_of :: "Options \<Rightarrow> string \<Rightarrow> string" where
  "core_of opts s =
     (if Format opts = FormatAppKey then generated_runes (nat (sint (SegmentLength opts))) 0 s else s)"

text \<open>
  The Segment Formatter as the specification words it: the flat sequence cut into
  \<open>segments\<close> groups of \<open>segmentLength\<close> characters each, in the order of the sequence,
  and the groups joined by single dashes. It is compared with the loop of
  \<open>generateAppKey\<close> below.
\<close>

definition segment_groups :: "nat \<Rightarrow> nat \<Rightarrow> string \<Rightarrow> string list" where
  "segment_groups segments segLen core =
     map (\<lambda>g. take segLen (drop (g * segLen) core)) [0..<segments]"

fun join_dashes :: "string list \<Rightarrow> string" where
  "join_dashes [] = []"
| "join_dashes [g] = g"
| "join_dashes (g # h # gs) = g @ CHR ''-'' # join_dashes (h # gs)"

definition spec_segment_formatter :: "nat \<Rightarrow> nat \<Rightarrow> string \<Rightarrow> string" where
  "spec_segment_formatter segments segLen core = join_dashes (segment_groups segments segLen core)"

text \<open>The sum of the minima of the toggled-on classes, as a number and not a machine integer.\<close>

definition minima_sum :: "Options \<Rightarrow> int" where
  "minima_sum opts =
     (if UseLower opts then sint (MinLower opts) else 0) +
     (if UseUpper opts then sint (MinUpper opts) else 0) +
     (if UseNumber opts then sint (MinNumber opts) else 0) +
     (if UseSymbol opts then sint (MinSymbol opts) else 0)"

text \<open>
  A configuration reaches the validation of its class pool when the checks before it
  pass: a positive length for the generic format; positive segment parameters and a
  positive derived length (the wrapping product the code computes) for the app key.
\<close>

definition reaches_validation :: "Options \<Rightarrow> bool" where
  "reaches_validation opts =
     (Format opts = FormatGeneric \<and> 0 < sint (Length opts)
      \<or> Format opts = FormatAppKey \<and> 0 < sint (Segments opts) \<and> 0 < sint (SegmentLength opts)
          \<and> 0 < sint (Segments opts * SegmentLength opts))"

text \<open>
  The request that \<open>generateGeneric\<close> serves: the configuration itself, or for an app key
  the copy \<open>tmp\<close> with the derived length. The derived length is the length of that
  request, for an app key the wrapping product of the two segment parameters.
\<close>

definition generic_request :: "Options \<Rightarrow> Options" where
  "generic_request opts =
     (if Format opts = FormatAppKey
      then opts\<lparr>Length := Segments opts * SegmentLength opts, Format := FormatGeneric\<rparr>
      else opts)"

definition derived_length :: "Options \<Rightarrow> int" where
  "derived_length opts =
     (if Format opts = FormatAppKey then sint (Segments opts * SegmentLength opts)
      else sint (Length opts))"

text \<open>A source that delivers at every call.\<close>

definition never_fails :: "entropy \<Rightarrow> bool" where
  "never_fails src = (\<forall>k. \<exists>v. src k = Gives v)"

subsection \<open>Example configurations\<close>

definition cfg_disabled_symbol_minimum :: Options where
  "cfg_disabled_symbol_minimum =
     \<lparr>Format = FormatAppKey, Length = 16,
      UseLower = True, UseUpper = True, UseNumber = True, UseSymbol = False,
      MinLower = 0, MinUpper = 0, MinNumber = 0, MinSymbol = 2,
      Segments = 3, SegmentLength = 5\<rparr>"

definition cfg_no_classes :: Options where
  "cfg_no_classes =
     \<lparr>Format = FormatGeneric, Length = 8,
      UseLower = False, UseUpper = False, UseNumber = False, UseSymbol = False,
      MinLower = 0, MinUpper = 0, MinNumber = 0, MinSymbol = 0,
      Segments = 4, SegmentLength = 4\<rparr>"

definition cfg_negative_disabled :: Options where
  "cfg_negative_disabled =
     \<lparr>Format = FormatGeneric, Length = 4,
      UseLower = False, UseUpper = True, UseNumber = True, UseSymbol = True,
      MinLower = - 1, MinUpper = 0, MinNumber = 0, MinSymbol = 0,
      Segments = 4, SegmentLength = 4\<rparr>"

definition cfg_lower_digits :: Options where
  "cfg_lower_digits =
     \<lparr>Format = FormatGeneric, Length = 5,
      UseLower = True, UseUpper = False, UseNumber = True, UseSymbol = False,
      MinLower = 3, MinUpper = 0, MinNumber = 2, MinSymbol = 0,
      Segments = 4, SegmentLength = 4\<rparr>"

definition cfg_appkey :: Options where
  "cfg_appkey =
     \<lparr>Format = FormatAppKey, Length = 16,
      UseLower = True, UseUpper = True, UseNumber = True, UseSymbol = True,
      MinLower = 0, MinUpper = 1, MinNumber = 0, MinSymbol = 2,
      Segments = 3, SegmentLength = 2\<rparr>"

definition cfg_zero_segments :: Options where
  "cfg_zero_segments =
     \<lparr>Format = FormatAppKey, Length = 16,
      UseLower = True, UseUpper = True, UseNumber = True, UseSymbol = True,
      MinLower = 0, MinUpper = 0, MinNumber = 0, MinSymbol = 0,
      Segments = 0, SegmentLength = 0\<rparr>"

definition cfg_zero_segment_length :: Options where
  "cfg_zero_segment_length =
     \<lparr>Format = FormatAppKey, Length = 16,
      UseLower = True, UseUpper = True, UseNumber = True, UseSymbol = True,
      MinLower = 0, MinUpper = 0, MinNumber = 0, MinSymbol = 0,
      Segments = 4, SegmentLength = 0\<rparr>"

definition cfg_segments_overflow :: Options where
  "cfg_segments_overflow =
     \<lparr>Format = FormatAppKey, Length = 16,
      UseLower = True, UseUpper = True, UseNumber = True, UseSymbol = True,
      MinLower = 0, MinUpper = 0, MinNumber = 0, MinSymbol = 0,
      Segments = 3, SegmentLength = 6148914691236517206\<rparr>"

definition cfg_minima_overflow :: Options where
  "cfg_minima_overflow =
     \<lparr>Format = FormatGeneric, Length = 1,
      UseLower = True, UseUpper = True, UseNumber = False, UseSymbol = False,
      MinLower = 9223372036854775807, MinUpper = 1, MinNumber = 0, MinSymbol = 0,
      Segments = 4, SegmentLength = 4\<rparr>"

section \<open>The stages of the generator\<close>

lemmas format_defs = FormatGeneric_def FormatAppKey_def FormatGUID_def

lemma collect_eq:
  "collectClassesAndValidate opts =
     (if \<not> UseLower opts \<and> 0 < sint (MinLower opts) then Error (DisabledClassMinimum Lowercase)
      else if \<not> UseUpper opts \<and> 0 < sint (MinUpper opts) then Error (DisabledClassMinimum Uppercase)
      else if \<not> UseNumber opts \<and> 0 < sint (MinNumber opts) then Error (DisabledClassMinimum Numbers)
      else if \<not> UseSymbol opts \<and> 0 < sint (MinSymbol opts) then Error (DisabledClassMinimum Symbols)
      else if pool opts = [] then Error NoClassesEnabled
      else if \<exists>p \<in> set (pool opts). sint (snd p) < 0 then Error NegativeMinimum
      else Ok (map fst (pool opts), map snd (pool opts)))"
  unfolding collectClassesAndValidate_def pool_def Let_def
  by (simp split: if_splits)

lemma rand_Int_Ok:
  "rand_Int src k mx = Ok (v, k') \<Longrightarrow> v < mx \<and> k' = Suc k"
  by (auto simp: rand_Int_def split: if_splits event.splits)

lemma rand_Int_Error:
  "rand_Int src k mx = Error e \<Longrightarrow> \<exists>m. src k = Fails m \<and> e = EntropySourceFailure m"
  by (auto simp: rand_Int_def split: if_splits event.splits)

lemma randomRune_Ok:
  "randomRune src k cs = Ok (r, k') \<Longrightarrow> r \<in> set cs \<and> k' = Suc k"
  by (auto simp: randomRune_def split: if_splits result.splits dest!: rand_Int_Ok)

lemma randomRune_Error:
  "randomRune src k cs = Error e \<Longrightarrow> draw_error e"
  by (auto simp: randomRune_def draw_error_def split: if_splits result.splits dest!: rand_Int_Error)

lemma draw_minimum_Error:
  "draw_minimum src k cs n out = Error e \<Longrightarrow> draw_error e"
  by (induction n arbitrary: k out) (auto split: result.splits dest: randomRune_Error)

lemma satisfy_minima_Error:
  "satisfy_minima src k sets mins out = Error e \<Longrightarrow> draw_error e"
  by (induction src k sets mins out rule: satisfy_minima.induct)
     (auto split: result.splits dest: draw_minimum_Error)

lemma fill_remainder_Error:
  "fill_remainder src k all len out = Error e \<Longrightarrow> draw_error e"
proof (induction src k all len out rule: fill_remainder.induct)
  case (1 src k all len out)
  then show ?case
    by (subst (asm) (2) fill_remainder.simps) (auto split: if_splits result.splits dest: randomRune_Error)
qed

lemma shuffle_from_Error:
  "shuffle_from src k r i \<noteq> Error e"
  by (induction i arbitrary: k r) (auto split: result.splits)

lemma generateGeneric_eq:
  "generateGeneric src k opts =
     (if sint (Length opts) \<le> 0 then Error LengthNotPositive
      else
        (case collectClassesAndValidate opts of
           Error e \<Rightarrow> Error e
         | Panic \<Rightarrow> Panic
         | Ok (classSets, minima) \<Rightarrow>
             (if sint (Length opts) < sint (totalMin minima)
              then Error (MinimaExceedLength (totalMin minima) (Length opts))
              else if maxAlloc < 4 * sint (Length opts) then Panic
              else
                (case satisfy_minima src k classSets minima [] of
                   Error e \<Rightarrow> Error e
                 | Panic \<Rightarrow> Panic
                 | Ok (out, k1) \<Rightarrow>
                     (case fill_remainder src k1 (concatClasses classSets) (Length opts) out of
                        Error e \<Rightarrow> Error e
                      | Panic \<Rightarrow> Panic
                      | Ok (out', k2) \<Rightarrow> shuffleRunes src k2 out')))))"
  by (simp add: generateGeneric_def make_runes_def split: result.splits)

lemma generateGeneric_Error:
  assumes "generateGeneric src k opts = Error e"
  shows "e = LengthNotPositive \<and> sint (Length opts) \<le> 0
       \<or> 0 < sint (Length opts) \<and> collectClassesAndValidate opts = Error e
       \<or> 0 < sint (Length opts) \<and> (\<exists>sets mins. collectClassesAndValidate opts = Ok (sets, mins) \<and>
            (e = MinimaExceedLength (totalMin mins) (Length opts) \<and> sint (Length opts) < sint (totalMin mins)
             \<or> draw_error e \<and> sint (totalMin mins) \<le> sint (Length opts)))"
  using assms unfolding generateGeneric_eq shuffleRunes_def
  apply (auto split: if_splits result.splits simp: shuffle_from_Error)
   apply (erule fill_remainder_Error)
  apply (erule satisfy_minima_Error)
  done


lemma count_class_append [simp]:
  "count_class cs (s @ t) = count_class cs s + count_class cs t"
  by (simp add: count_class_def)

lemma count_class_Nil [simp]: "count_class cs [] = 0"
  by (simp add: count_class_def)

lemma count_class_mset:
  assumes "mset s = mset t"
  shows "count_class cs s = count_class cs t"
proof -
  have "\<And>u. count_class cs u = size (filter_mset (\<lambda>c. c \<in> set cs) (mset u))"
    unfolding count_class_def by (metis mset_filter size_mset)
  with assms show ?thesis by simp
qed

lemma count_class_subset:
  "set b \<subseteq> set cs \<Longrightarrow> count_class cs b = length b"
  by (induction b) (auto simp: count_class_def)

lemma count_class_le_length:
  "count_class cs s \<le> length s"
  by (simp add: count_class_def)

lemma count_class_disjoint:
  "set b \<inter> set cs = {} \<Longrightarrow> count_class cs b = 0"
  by (induction b) (auto simp: count_class_def)

lemma draw_minimum_Ok:
  "draw_minimum src k cs n out = Ok (out', k') \<Longrightarrow>
     \<exists>ds. out' = out @ ds \<and> length ds = n \<and> set ds \<subseteq> set cs"
proof (induction n arbitrary: k out)
  case 0
  then show ?case by simp
next
  case (Suc n)
  from Suc.prems obtain r k1 where r: "randomRune src k cs = Ok (r, k1)"
    and rest: "draw_minimum src k1 cs n (out @ [r]) = Ok (out', k')"
    by (auto split: result.splits)
  from Suc.IH [OF rest] obtain ds where ds: "out' = (out @ [r]) @ ds" "length ds = n" "set ds \<subseteq> set cs"
    by blast
  from r have "r \<in> set cs" by (simp add: randomRune_Ok)
  with ds have "out' = out @ (r # ds) \<and> length (r # ds) = Suc n \<and> set (r # ds) \<subseteq> set cs"
    by simp
  then show ?case by blast
qed

lemma satisfy_minima_Ok:
  "satisfy_minima src k (map fst pl) (map snd pl) out = Ok (out', k') \<Longrightarrow>
     \<exists>blocks. out' = out @ concat blocks \<and> list_all2 block_of blocks pl"
proof (induction pl arbitrary: k out)
  case Nil
  then show ?case by simp
next
  case (Cons p pl)
  from Cons.prems obtain out1 k1 where
    d: "draw_minimum src k (fst p) (nat (sint (snd p))) out = Ok (out1, k1)"
    and rest: "satisfy_minima src k1 (map fst pl) (map snd pl) out1 = Ok (out', k')"
    by (auto split: result.splits)
  from draw_minimum_Ok [OF d] obtain b where b: "out1 = out @ b" "block_of b p"
    by (auto simp: block_of_def)
  from Cons.IH [OF rest] obtain blocks where bl: "out' = out1 @ concat blocks" "list_all2 block_of blocks pl"
    by blast
  from b bl have "out' = out @ concat (b # blocks) \<and> list_all2 block_of (b # blocks) (p # pl)"
    by simp
  then show ?case by blast
qed

lemma fill_remainder_Ok:
  "fill_remainder src k all len out = Ok (out', k') \<Longrightarrow>
     \<exists>ds. out' = out @ ds \<and> set ds \<subseteq> set all \<and> int (length out') = max (int (length out)) (sint len)"
proof (induction src k all len out rule: fill_remainder.induct)
  case (1 src k all len out)
  show ?case
  proof (cases "int (length out) < sint len")
    case False
    with "1.prems" show ?thesis
      by (subst (asm) fill_remainder.simps) auto
  next
    case True
    with "1.prems" obtain r k1 where r: "randomRune src k all = Ok (r, k1)"
      and rest: "fill_remainder src k1 all len (out @ [r]) = Ok (out', k')"
      by (subst (asm) fill_remainder.simps) (auto split: result.splits)
    from "1.IH" [OF True r refl rest] obtain ds where
      ds: "out' = (out @ [r]) @ ds" "set ds \<subseteq> set all"
        "int (length out') = max (int (length (out @ [r]))) (sint len)"
      by blast
    from r have "r \<in> set all" by (simp add: randomRune_Ok)
    with ds True have "out' = out @ (r # ds) \<and> set (r # ds) \<subseteq> set all
       \<and> int (length out') = max (int (length out)) (sint len)"
      by auto
    then show ?thesis by blast
  qed
qed

lemma shuffle_from_Ok:
  "shuffle_from src k r i = Ok (r', k') \<Longrightarrow> i < length r \<or> i = 0 \<Longrightarrow> mset r' = mset r"
proof (induction i arbitrary: k r)
  case 0
  then show ?case by simp
next
  case (Suc i)
  from Suc.prems obtain j k1 where j: "rand_Int src k (Suc (Suc i)) = Ok (j, k1)"
    and rest: "shuffle_from src k1 (r[Suc i := r ! j, j := r ! Suc i]) i = Ok (r', k')"
    by (auto split: result.splits)
  from j have jb: "j < Suc (Suc i)" by (simp add: rand_Int_Ok)
  from Suc.prems have ib: "Suc i < length r" by simp
  with jb have "mset (r[Suc i := r ! j, j := r ! Suc i]) = mset r"
    by (simp add: mset_swap)
  moreover from ib have "mset r' = mset (r[Suc i := r ! j, j := r ! Suc i])"
    by (intro Suc.IH [OF rest]) simp
  ultimately show ?case by simp
qed

lemma shuffleRunes_Ok:
  "shuffleRunes src k r = Ok (r', k') \<Longrightarrow> mset r' = mset r"
  unfolding shuffleRunes_def
  by (erule shuffle_from_Ok) (cases r; simp)


lemma Generate_Error_iff:
  "Generate src opts = Error e \<longleftrightarrow> Generate_from src 0 opts = Error e"
  by (simp add: Generate_def split: result.splits prod.splits)

lemma Generate_Ok_iff:
  "Generate src opts = Ok s \<longleftrightarrow> (\<exists>k. Generate_from src 0 opts = Ok (s, k))"
  by (simp add: Generate_def split: result.splits prod.splits)

lemma Generate_Panic_iff:
  "Generate src opts = Panic \<longleftrightarrow> Generate_from src 0 opts = Panic"
  by (simp add: Generate_def split: result.splits prod.splits)

lemma pool_update [simp]:
  "pool (opts\<lparr>Length := l, Format := f\<rparr>) = pool opts"
  by (simp add: pool_def)

lemma collect_update [simp]:
  "collectClassesAndValidate (opts\<lparr>Length := l, Format := f\<rparr>) = collectClassesAndValidate opts"
  by (simp add: collectClassesAndValidate_def)

lemma pool_negative_iff:
  "(\<exists>p \<in> set (pool opts). sint (snd p) < 0) \<longleftrightarrow>
     UseLower opts \<and> sint (MinLower opts) < 0 \<or> UseUpper opts \<and> sint (MinUpper opts) < 0
     \<or> UseNumber opts \<and> sint (MinNumber opts) < 0 \<or> UseSymbol opts \<and> sint (MinSymbol opts) < 0"
  by (auto simp: pool_def)

lemma pool_Nil_iff:
  "pool opts = [] \<longleftrightarrow> \<not> UseLower opts \<and> \<not> UseUpper opts \<and> \<not> UseNumber opts \<and> \<not> UseSymbol opts"
  by (simp add: pool_def)

lemma collect_NegativeMinimum_iff:
  "collectClassesAndValidate opts = Error NegativeMinimum \<longleftrightarrow>
     (UseLower opts \<or> sint (MinLower opts) \<le> 0) \<and> (UseUpper opts \<or> sint (MinUpper opts) \<le> 0)
     \<and> (UseNumber opts \<or> sint (MinNumber opts) \<le> 0) \<and> (UseSymbol opts \<or> sint (MinSymbol opts) \<le> 0)
     \<and> pool opts \<noteq> [] \<and> (\<exists>p \<in> set (pool opts). sint (snd p) < 0)"
  by (simp add: collect_eq not_less)

lemma Generate_collect_Error:
  assumes "reaches_validation opts" and "collectClassesAndValidate opts = Error e"
  shows "Generate src opts = Error e"
  using assms
  by (auto simp: reaches_validation_def Generate_def Generate_from_def generateAppKey_def
      generateGeneric_eq format_defs Let_def)

lemma generateAppKey_Error:
  assumes "generateAppKey src k opts = Error e"
  shows "e = InvalidSegmentCount \<and> sint (Segments opts) \<le> 0
       \<or> e = InvalidSegmentLength \<and> 0 < sint (Segments opts) \<and> sint (SegmentLength opts) \<le> 0
       \<or> 0 < sint (Segments opts) \<and> 0 < sint (SegmentLength opts) \<and>
          generateGeneric src k (opts\<lparr>Length := Segments opts * SegmentLength opts, Format := FormatGeneric\<rparr>) = Error e"
  using assms
  by (auto simp: generateAppKey_def Let_def split: if_splits result.splits)

lemma Generate_Error_cases:
  assumes "reaches_validation opts" and "Generate src opts = Error e"
  shows "collectClassesAndValidate opts = Error e
    \<or> (\<exists>sets mins. collectClassesAndValidate opts = Ok (sets, mins)
         \<and> ((\<exists>a b. e = MinimaExceedLength a b) \<or> draw_error e))"
proof -
  define tmp where "tmp = (if Format opts = FormatGeneric then opts
     else opts\<lparr>Length := Segments opts * SegmentLength opts, Format := FormatGeneric\<rparr>)"
  have c: "collectClassesAndValidate tmp = collectClassesAndValidate opts"
    by (simp add: tmp_def)
  have l: "0 < sint (Length tmp)"
    using assms(1) by (auto simp: tmp_def reaches_validation_def format_defs)
  have "generateGeneric src 0 tmp = Error e"
  proof (cases "Format opts = FormatGeneric")
    case True
    with assms(2) show ?thesis
      by (simp add: tmp_def Generate_Error_iff Generate_from_def format_defs)
  next
    case False
    with assms(1) have f: "Format opts = FormatAppKey" and pos: "0 < sint (Segments opts)" "0 < sint (SegmentLength opts)"
      by (auto simp: reaches_validation_def)
    with assms(2) have "generateAppKey src 0 opts = Error e"
      by (simp add: Generate_Error_iff Generate_from_def format_defs)
    from generateAppKey_Error [OF this] pos False show ?thesis
      by (simp add: tmp_def)
  qed
  from generateGeneric_Error [OF this] l show ?thesis
    unfolding c by auto
qed

text \<open>
  Where \<open>NegativeMinimum\<close> comes from: the loop over the collected minima, which are
  those of the toggled-on classes.
\<close>

lemma Generate_NegativeMinimum_iff:
  assumes "reaches_validation opts"
    and "UseLower opts \<or> sint (MinLower opts) \<le> 0"
    and "UseUpper opts \<or> sint (MinUpper opts) \<le> 0"
    and "UseNumber opts \<or> sint (MinNumber opts) \<le> 0"
    and "UseSymbol opts \<or> sint (MinSymbol opts) \<le> 0"
    and "UseLower opts \<or> UseUpper opts \<or> UseNumber opts \<or> UseSymbol opts"
  shows "Generate src opts = Error NegativeMinimum \<longleftrightarrow>
     UseLower opts \<and> sint (MinLower opts) < 0 \<or> UseUpper opts \<and> sint (MinUpper opts) < 0
     \<or> UseNumber opts \<and> sint (MinNumber opts) < 0 \<or> UseSymbol opts \<and> sint (MinSymbol opts) < 0"
    (is "?lhs \<longleftrightarrow> ?rhs")
proof
  assume ?rhs
  with assms(2-6) have "collectClassesAndValidate opts = Error NegativeMinimum"
    unfolding collect_NegativeMinimum_iff pool_negative_iff pool_Nil_iff by blast
  with assms(1) show ?lhs
    by (rule Generate_collect_Error)
next
  assume ?lhs
  from Generate_Error_cases [OF assms(1) this]
  have "collectClassesAndValidate opts = Error NegativeMinimum"
    by (auto simp: draw_error_def)
  then show ?rhs
    unfolding collect_NegativeMinimum_iff pool_negative_iff by blast
qed

subsection \<open>What a successful run returns\<close>

lemma generated_runes_write_segments:
  "generated_runes segLen i (write_segments segLen i core) = core"
proof (induction core arbitrary: i)
  case Nil
  then show ?case by simp
next
  case (Cons r core)
  show ?case
  proof (cases "0 < i \<and> i mod segLen = 0")
    case True
    then show ?thesis using Cons.IH by simp
  next
    case False
    then show ?thesis using Cons.IH [of "Suc i"]
      by (cases "write_segments segLen (Suc i) core") auto
  qed
qed

lemma collect_Ok:
  assumes "collectClassesAndValidate opts = Ok (sets, mins)"
  shows "sets = map fst (pool opts)" and "mins = map snd (pool opts)"
    and "pool opts \<noteq> []" and "\<forall>p \<in> set (pool opts). 0 \<le> sint (snd p)"
  using assms by (auto simp: collect_eq not_less split: if_splits)

lemma generateGeneric_Ok:
  assumes "generateGeneric src k opts = Ok (s, k')"
  shows "\<exists>blocks ds.
      mset s = mset (concat blocks @ ds)
    \<and> list_all2 block_of blocks (pool opts)
    \<and> set ds \<subseteq> set (concat (map fst (pool opts)))
    \<and> int (length s) = max (int (length (concat blocks))) (sint (Length opts))"
    and "0 < sint (Length opts)"
    and "collectClassesAndValidate opts = Ok (map fst (pool opts), map snd (pool opts))"
    and "sint (totalMin (map snd (pool opts))) \<le> sint (Length opts)"
    and "4 * sint (Length opts) \<le> maxAlloc"
proof -
  from assms have len: "0 < sint (Length opts)"
    by (auto simp: generateGeneric_eq split: if_splits)
  from assms obtain sets mins where c: "collectClassesAndValidate opts = Ok (sets, mins)"
    by (auto simp: generateGeneric_eq split: if_splits result.splits)
  note sm = collect_Ok(1,2) [OF c]
  from assms len c have tot: "sint (totalMin mins) \<le> sint (Length opts)"
    by (auto simp: generateGeneric_eq split: if_splits)
  from assms len c tot obtain out1 k1 out2 k2 where
    m: "satisfy_minima src k sets mins [] = Ok (out1, k1)"
    and f: "fill_remainder src k1 (concatClasses sets) (Length opts) out1 = Ok (out2, k2)"
    and sh: "shuffleRunes src k2 out2 = Ok (s, k')"
    by (auto simp: generateGeneric_eq split: if_splits result.splits)
  from m obtain blocks where bl: "out1 = concat blocks" "list_all2 block_of blocks (pool opts)"
    unfolding sm by (auto dest: satisfy_minima_Ok)
  from fill_remainder_Ok [OF f] obtain ds where
    ds: "out2 = out1 @ ds" "set ds \<subseteq> set (concatClasses sets)"
      "int (length out2) = max (int (length out1)) (sint (Length opts))"
    by blast
  from shuffleRunes_Ok [OF sh] have ms: "mset s = mset out2" .
  then have "length s = length out2"
    by (rule mset_eq_length)
  with ms bl ds have "mset s = mset (concat blocks @ ds)
    \<and> list_all2 block_of blocks (pool opts)
    \<and> set ds \<subseteq> set (concat (map fst (pool opts)))
    \<and> int (length s) = max (int (length (concat blocks))) (sint (Length opts))"
    by (simp add: concatClasses_def sm)
  then show "\<exists>blocks ds.
      mset s = mset (concat blocks @ ds)
    \<and> list_all2 block_of blocks (pool opts)
    \<and> set ds \<subseteq> set (concat (map fst (pool opts)))
    \<and> int (length s) = max (int (length (concat blocks))) (sint (Length opts))"
    by blast
  show "0 < sint (Length opts)" by (rule len)
  show "collectClassesAndValidate opts = Ok (map fst (pool opts), map snd (pool opts))"
    using c sm by simp
  show "sint (totalMin (map snd (pool opts))) \<le> sint (Length opts)"
    using tot sm by simp
  from assms len c tot show "4 * sint (Length opts) \<le> maxAlloc"
    by (auto simp: generateGeneric_eq split: if_splits)
qed

lemma generateAppKey_Ok:
  assumes "generateAppKey src k opts = Ok (s, k')"
  shows "\<exists>core. generateGeneric src k (opts\<lparr>Length := Segments opts * SegmentLength opts, Format := FormatGeneric\<rparr>) = Ok (core, k')
     \<and> s = write_segments (nat (sint (SegmentLength opts))) 0 core"
    and "0 < sint (Segments opts)" and "0 < sint (SegmentLength opts)"
    and "\<not> Grow_panics (Segments opts * SegmentLength opts + (Segments opts - 1))"
  using assms
  by (auto simp: generateAppKey_def Let_def split: if_splits result.splits)

lemma Generate_core:
  assumes "Format opts = FormatGeneric \<or> Format opts = FormatAppKey" and "Generate src opts = Ok s"
  shows "\<exists>l k. generateGeneric src 0 (opts\<lparr>Length := l, Format := FormatGeneric\<rparr>) = Ok (core_of opts s, k)"
proof (cases "Format opts = FormatGeneric")
  case True
  with assms(2) obtain k where "generateGeneric src 0 opts = Ok (s, k)"
    by (auto simp: Generate_Ok_iff Generate_from_def format_defs)
  moreover from True have "opts\<lparr>Length := Length opts, Format := FormatGeneric\<rparr> = opts"
    by simp
  moreover from True have "core_of opts s = s"
    by (simp add: core_of_def format_defs)
  ultimately show ?thesis by metis
next
  case False
  with assms(1) have f: "Format opts = FormatAppKey" by simp
  with assms(2) obtain k where "generateAppKey src 0 opts = Ok (s, k)"
    by (auto simp: Generate_Ok_iff Generate_from_def format_defs)
  from generateAppKey_Ok(1) [OF this] obtain core where
    "generateGeneric src 0 (opts\<lparr>Length := Segments opts * SegmentLength opts, Format := FormatGeneric\<rparr>) = Ok (core, k)"
    "s = write_segments (nat (sint (SegmentLength opts))) 0 core"
    by blast
  moreover from this(2) f have "core_of opts s = core"
    by (simp add: core_of_def generated_runes_write_segments)
  ultimately show ?thesis by auto
qed

lemma list_all2_right_mem:
  assumes "list_all2 R xs ys" and "y \<in> set ys"
  shows "\<exists>x \<in> set xs. R x y"
  using assms by (induction rule: list_all2_induct) auto

lemma list_all2_left_mem:
  assumes "list_all2 R xs ys" and "x \<in> set xs"
  shows "\<exists>y \<in> set ys. R x y"
  using assms by (induction rule: list_all2_induct) auto

lemma count_class_concat_ge:
  assumes "b \<in> set blocks" and "set b \<subseteq> set cs"
  shows "length b \<le> count_class cs (concat blocks)"
  using assms
proof (induction blocks)
  case Nil
  then show ?case by simp
next
  case (Cons a blocks)
  show ?case
  proof (cases "b = a")
    case True
    with Cons.prems show ?thesis
      by (simp add: count_class_subset)
  next
    case False
    with Cons have "length b \<le> count_class cs (concat blocks)" by simp
    then show ?thesis by simp
  qed
qed

lemma pool_mem_iff:
  "p \<in> set (pool opts) \<longleftrightarrow>
     UseLower opts \<and> p = (lowerChars, MinLower opts) \<or> UseUpper opts \<and> p = (upperChars, MinUpper opts)
     \<or> UseNumber opts \<and> p = (numberChars, MinNumber opts) \<or> UseSymbol opts \<and> p = (symbolChars, MinSymbol opts)"
  by (auto simp: pool_def)

lemma generateGeneric_minimum:
  assumes "generateGeneric src k opts = Ok (s, k')" and "p \<in> set (pool opts)"
  shows "sint (snd p) \<le> int (count_class (fst p) s)"
proof -
  from generateGeneric_Ok(1) [OF assms(1)] obtain blocks ds where
    ms: "mset s = mset (concat blocks @ ds)" and bl: "list_all2 block_of blocks (pool opts)"
    by blast
  from list_all2_right_mem [OF bl assms(2)] obtain b where
    b: "b \<in> set blocks" "length b = nat (sint (snd p))" "set b \<subseteq> set (fst p)"
    by (auto simp: block_of_def)
  have "count_class (fst p) s = count_class (fst p) (concat blocks @ ds)"
    using ms by (rule count_class_mset)
  moreover have "length b \<le> count_class (fst p) (concat blocks)"
    using b(1,3) by (rule count_class_concat_ge)
  ultimately have "nat (sint (snd p)) \<le> count_class (fst p) s"
    using b(2) by simp
  then show ?thesis by linarith
qed

lemma generateGeneric_chars:
  assumes "generateGeneric src k opts = Ok (s, k')" and "c \<in> set s"
  shows "\<exists>p \<in> set (pool opts). c \<in> set (fst p)"
proof -
  from generateGeneric_Ok(1) [OF assms(1)] obtain blocks ds where
    ms: "mset s = mset (concat blocks @ ds)" and bl: "list_all2 block_of blocks (pool opts)"
    and ds: "set ds \<subseteq> set (concat (map fst (pool opts)))"
    by blast
  from ms have "set s = set (concat blocks @ ds)"
    by (rule mset_eq_setD)
  with assms(2) consider b where "b \<in> set blocks" "c \<in> set b" | "c \<in> set ds"
    by auto
  then show ?thesis
  proof cases
    case 1
    from list_all2_left_mem [OF bl 1(1)] obtain p where "p \<in> set (pool opts)" "block_of b p"
      by blast
    with 1(2) show ?thesis
      by (auto simp: block_of_def)
  next
    case 2
    with ds show ?thesis by auto
  qed
qed

lemma classes_disjoint:
  "set lowerChars \<inter> set upperChars = {}" "set lowerChars \<inter> set numberChars = {}"
  "set lowerChars \<inter> set symbolChars = {}" "set upperChars \<inter> set numberChars = {}"
  "set upperChars \<inter> set symbolChars = {}" "set numberChars \<inter> set symbolChars = {}"
  by (simp_all add: lowerChars_def upperChars_def numberChars_def symbolChars_def)

subsection \<open>The segments of an app key\<close>

lemma write_segments_no_dash:
  assumes "\<forall>t < length xs. \<not> (0 < i + t \<and> (i + t) mod segLen = 0)"
  shows "write_segments segLen i (xs @ ys) = xs @ write_segments segLen (i + length xs) ys"
  using assms
proof (induction xs arbitrary: i)
  case Nil
  then show ?case by simp
next
  case (Cons x xs)
  have "0 < length (x # xs)" by simp
  from Cons.prems [rule_format, OF this] have first: "\<not> (0 < i \<and> i mod segLen = 0)"
    by simp
  have "\<forall>t < length xs. \<not> (0 < Suc i + t \<and> (Suc i + t) mod segLen = 0)"
  proof (intro allI impI)
    fix t assume "t < length xs"
    then have "Suc t < length (x # xs)" by simp
    from Cons.prems [rule_format, OF this]
    show "\<not> (0 < Suc i + t \<and> (Suc i + t) mod segLen = 0)"
      by simp
  qed
  from Cons.IH [OF this] first show ?case
    by simp
qed

lemma write_segments_one_segment:
  assumes "0 < segLen" and "length xs = segLen"
  shows "write_segments segLen (g * segLen) (xs @ ys) =
     (if 0 < g then ''-'' else []) @ xs @ write_segments segLen (Suc g * segLen) ys"
proof -
  from assms obtain x xs' where xs: "xs = x # xs'" and l: "Suc (length xs') = segLen"
    by (cases xs) auto
  have "\<forall>t < length xs'. \<not> (0 < Suc (g * segLen) + t \<and> (Suc (g * segLen) + t) mod segLen = 0)"
  proof (intro allI impI)
    fix t assume "t < length xs'"
    with l have "Suc t < segLen" by simp
    then have "(Suc t + g * segLen) mod segLen = Suc t"
      by simp
    moreover have "Suc (g * segLen) + t = Suc t + g * segLen"
      by simp
    ultimately show "\<not> (0 < Suc (g * segLen) + t \<and> (Suc (g * segLen) + t) mod segLen = 0)"
      by (simp only:) simp
  qed
  from write_segments_no_dash [OF this, of ys]
  have "write_segments segLen (Suc (g * segLen)) (xs' @ ys)
     = xs' @ write_segments segLen (Suc (g * segLen) + length xs') ys" .
  moreover from l have "Suc (g * segLen) + length xs' = Suc g * segLen"
    by simp
  ultimately have rest: "write_segments segLen (Suc (g * segLen)) (xs' @ ys)
     = xs' @ write_segments segLen (Suc g * segLen) ys"
    by (simp only:)
  from assms(1) have "(0 < g * segLen \<and> g * segLen mod segLen = 0) = (0 < g)"
    by simp
  then have "write_segments segLen (g * segLen) (x # xs' @ ys) =
     (if 0 < g then CHR ''-'' # x # write_segments segLen (Suc (g * segLen)) (xs' @ ys)
      else x # write_segments segLen (Suc (g * segLen)) (xs' @ ys))"
    by (simp only: write_segments.simps)
  then show ?thesis
    unfolding xs rest by simp
qed

lemma join_dashes_Cons:
  "join_dashes (g # gs) = g @ (if gs = [] then [] else CHR ''-'' # join_dashes gs)"
  by (cases gs) simp_all

lemma write_segments_groups:
  assumes "0 < segLen" and "length core = n * segLen"
  shows "write_segments segLen (g * segLen) core =
     (if n = 0 then [] else (if 0 < g then ''-'' else []) @ join_dashes (segment_groups n segLen core))"
  using assms(2)
proof (induction n arbitrary: g core)
  case 0
  then show ?case by simp
next
  case (Suc n)
  define xs where "xs = take segLen core"
  define ys where "ys = drop segLen core"
  from Suc.prems have lx: "length xs = segLen" and ly: "length ys = n * segLen"
    by (simp_all add: xs_def ys_def)
  have core: "core = xs @ ys"
    by (simp add: xs_def ys_def)
  have groups: "segment_groups (Suc n) segLen core = xs # segment_groups n segLen ys"
    unfolding segment_groups_def map_upt_Suc
    by (simp add: xs_def ys_def add.commute)
  have "write_segments segLen (g * segLen) core
     = (if 0 < g then ''-'' else []) @ xs @ write_segments segLen (Suc g * segLen) ys"
    unfolding core using assms(1) lx by (rule write_segments_one_segment)
  also have "write_segments segLen (Suc g * segLen) ys
     = (if n = 0 then [] else ''-'' @ join_dashes (segment_groups n segLen ys))"
    using Suc.IH [OF ly, of "Suc g"] by simp
  also have "xs @ (if n = 0 then [] else ''-'' @ join_dashes (segment_groups n segLen ys))
     = join_dashes (segment_groups (Suc n) segLen core)"
    unfolding groups join_dashes_Cons by (simp add: segment_groups_def)
  finally show ?case by simp
qed

lemma write_segments_eq_spec:
  assumes "0 < segLen" and "length core = n * segLen"
  shows "write_segments segLen 0 core = spec_segment_formatter n segLen core"
  using write_segments_groups [OF assms, of 0]
  by (cases "n = 0") (simp_all add: spec_segment_formatter_def segment_groups_def)

subsection \<open>Machine integers that do not overflow\<close>

lemma sint_add_no_overflow:
  fixes a b :: go_int
  assumes "0 \<le> sint a" and "0 \<le> sint b" and "sint a + sint b < 2 ^ 63"
  shows "sint (a + b) = sint a + sint b"
proof -
  have "sint (a + b) = signed_take_bit 63 (sint a + sint b)"
    by (simp add: sint_word_ariths)
  also from assms have "\<dots> = sint a + sint b"
    by (intro signed_take_bit_int_eq_self) simp_all
  finally show ?thesis .
qed

lemma sint_mult_no_overflow:
  fixes a b :: go_int
  assumes "0 \<le> sint a" and "0 \<le> sint b" and "sint a * sint b < 2 ^ 63"
  shows "sint (a * b) = sint a * sint b"
proof -
  have "sint (a * b) = signed_take_bit 63 (sint a * sint b)"
    by (simp add: sint_word_ariths)
  also have "\<dots> = sint a * sint b"
  proof (rule signed_take_bit_int_eq_self)
    from assms(1,2) have "0 \<le> sint a * sint b"
      by (rule mult_nonneg_nonneg)
    then show "- (2 ^ 63) \<le> sint a * sint b"
      by simp
    from assms(3) show "sint a * sint b < 2 ^ 63" .
  qed
  finally show ?thesis .
qed

lemma sint_pred_positive:
  fixes a :: go_int
  assumes "0 < sint a"
  shows "sint (a - 1) = sint a - 1"
proof -
  have "sint (a - 1) = signed_take_bit 63 (sint a - 1)"
    by (simp add: sint_word_ariths)
  also from assms sint_lt [of a] have "\<dots> = sint a - 1"
    by (intro signed_take_bit_int_eq_self) simp_all
  finally show ?thesis .
qed

lemma sint_foldl_add:
  fixes a :: go_int
  assumes "0 \<le> sint a" and "\<forall>m \<in> set ms. 0 \<le> sint m"
    and "sint a + sum_list (map sint ms) < 2 ^ 63"
  shows "sint (foldl (+) a ms) = sint a + sum_list (map sint ms)"
  using assms
proof (induction ms arbitrary: a)
  case Nil
  then show ?case by simp
next
  case (Cons m ms)
  from Cons.prems(2) have nn: "0 \<le> sum_list (map sint ms)"
    by (intro sum_list_nonneg) auto
  from Cons.prems have m: "0 \<le> sint m" by simp
  with Cons.prems nn have am: "sint (a + m) = sint a + sint m"
    by (intro sint_add_no_overflow) simp_all
  with Cons.prems m have "sint (foldl (+) (a + m) ms) = sint (a + m) + sum_list (map sint ms)"
    by (intro Cons.IH) simp_all
  with am show ?case by simp
qed

lemma sint_totalMin:
  assumes "\<forall>m \<in> set ms. 0 \<le> sint m" and "sum_list (map sint ms) < 2 ^ 63"
  shows "sint (totalMin ms) = sum_list (map sint ms)"
  using sint_foldl_add [of 0 ms] assms by (simp add: totalMin_def)

lemma minima_sum_pool:
  "minima_sum opts = sum_list (map sint (map snd (pool opts)))"
  by (simp add: minima_sum_def pool_def)

lemma blocks_length:
  assumes "list_all2 block_of blocks pl" and "\<forall>p \<in> set pl. 0 \<le> sint (snd p)"
  shows "int (length (concat blocks)) = sum_list (map sint (map snd pl))"
  using assms by (induction rule: list_all2_induct) (simp_all add: block_of_def)

lemma generateGeneric_length:
  assumes "generateGeneric src k opts = Ok (s, k')" and "minima_sum opts < 2 ^ 63"
  shows "int (length s) = sint (Length opts)"
proof -
  from generateGeneric_Ok(1) [OF assms(1)] obtain blocks ds where
    bl: "list_all2 block_of blocks (pool opts)"
    and len: "int (length s) = max (int (length (concat blocks))) (sint (Length opts))"
    by blast
  from collect_Ok(4) [OF generateGeneric_Ok(3) [OF assms(1)]]
  have nn: "\<forall>p \<in> set (pool opts). 0 \<le> sint (snd p)" .
  then have "\<forall>m \<in> set (map snd (pool opts)). 0 \<le> sint m"
    by simp
  with assms(2) have "sint (totalMin (map snd (pool opts))) = minima_sum opts"
    unfolding minima_sum_pool by (intro sint_totalMin)
  moreover from bl nn have "int (length (concat blocks)) = minima_sum opts"
    unfolding minima_sum_pool by (rule blocks_length)
  ultimately show ?thesis
    using len generateGeneric_Ok(4) [OF assms(1)] by simp
qed

lemma minima_sum_update [simp]:
  "minima_sum (opts\<lparr>Length := l, Format := f\<rparr>) = minima_sum opts"
  by (simp add: minima_sum_def)

lemma Generate_generic:
  assumes "Format opts = FormatGeneric"
  shows "Generate src opts =
     (case generateGeneric src 0 opts of Ok (s, k) \<Rightarrow> Ok s | Error e \<Rightarrow> Error e | Panic \<Rightarrow> Panic)"
  using assms by (simp add: Generate_def Generate_from_def format_defs split: result.splits)

lemma Generate_appkey:
  assumes "Format opts = FormatAppKey"
  shows "Generate src opts =
     (case generateAppKey src 0 opts of Ok (s, k) \<Rightarrow> Ok s | Error e \<Rightarrow> Error e | Panic \<Rightarrow> Panic)"
  using assms by (simp add: Generate_def Generate_from_def format_defs split: result.splits)

lemma appkey_no_overflow:
  assumes "0 < sint (Segments opts)" and "0 < sint (SegmentLength opts)"
    and "sint (Segments opts) * sint (SegmentLength opts) + sint (Segments opts) - 1 < 2 ^ 63"
  shows "sint (Segments opts * SegmentLength opts) = sint (Segments opts) * sint (SegmentLength opts)"
    and "sint (Segments opts * SegmentLength opts + (Segments opts - 1))
       = sint (Segments opts) * sint (SegmentLength opts) + sint (Segments opts) - 1"
proof -
  from assms(1,2) have pos: "0 < sint (Segments opts) * sint (SegmentLength opts)"
    by (rule mult_pos_pos)
  with assms show prod: "sint (Segments opts * SegmentLength opts) = sint (Segments opts) * sint (SegmentLength opts)"
    by (intro sint_mult_no_overflow) simp_all
  from assms(1) have pred: "sint (Segments opts - 1) = sint (Segments opts) - 1"
    by (rule sint_pred_positive)
  with assms pos prod
  have "sint (Segments opts * SegmentLength opts + (Segments opts - 1))
       = sint (Segments opts * SegmentLength opts) + sint (Segments opts - 1)"
    by (intro sint_add_no_overflow) simp_all
  with prod pred
  show "sint (Segments opts * SegmentLength opts + (Segments opts - 1))
       = sint (Segments opts) * sint (SegmentLength opts) + sint (Segments opts) - 1"
    by simp
qed

lemma Grow_after_generic:
  assumes "0 < sint (Segments opts)" and "0 < sint (SegmentLength opts)"
    and "sint (Segments opts) * sint (SegmentLength opts) + sint (Segments opts) - 1 < 2 ^ 63"
    and "4 * sint (Segments opts * SegmentLength opts) \<le> maxAlloc"
  shows "\<not> Grow_panics (Segments opts * SegmentLength opts + (Segments opts - 1))"
proof -
  note no = appkey_no_overflow [OF assms(1-3)]
  from assms(1,2) have "sint (Segments opts) * 1 \<le> sint (Segments opts) * sint (SegmentLength opts)"
    by (intro mult_left_mono) simp_all
  then have le: "sint (Segments opts) \<le> sint (Segments opts) * sint (SegmentLength opts)"
    by simp
  from assms(4) no(1)
  have "4 * (sint (Segments opts) * sint (SegmentLength opts)) \<le> maxAlloc"
    by simp
  with le assms(1)
  have "0 \<le> sint (Segments opts) * sint (SegmentLength opts) + sint (Segments opts) - 1"
    and "sint (Segments opts) * sint (SegmentLength opts) + sint (Segments opts) - 1 \<le> maxAlloc"
    by linarith+
  with no(2) show ?thesis
    by (simp add: Grow_panics_def)
qed

lemma appkey_refines_spec:
  assumes "Format opts = FormatAppKey"
    and "0 < sint (Segments opts)" and "0 < sint (SegmentLength opts)"
    and "sint (Segments opts) * sint (SegmentLength opts) + sint (Segments opts) - 1 < 2 ^ 63"
    and "minima_sum opts < 2 ^ 63"
  shows "Generate src opts =
     (case Generate src (opts\<lparr>Length := Segments opts * SegmentLength opts, Format := FormatGeneric\<rparr>) of
        Ok core \<Rightarrow> Ok (spec_segment_formatter (nat (sint (Segments opts))) (nat (sint (SegmentLength opts))) core)
      | Error e \<Rightarrow> Error e
      | Panic \<Rightarrow> Panic)"
proof -
  define tmp where "tmp = opts\<lparr>Length := Segments opts * SegmentLength opts, Format := FormatGeneric\<rparr>"
  note no = appkey_no_overflow [OF assms(2-4)]
  have grow: "\<not> Grow_panics (Segments opts * SegmentLength opts + (Segments opts - 1))"
    if "generateGeneric src 0 tmp = Ok (core, k)" for core k
  proof -
    from generateGeneric_Ok(5) [OF that]
    have "4 * sint (Segments opts * SegmentLength opts) \<le> maxAlloc"
      by (simp add: tmp_def)
    with assms(2-4) show ?thesis
      by (rule Grow_after_generic)
  qed
  have tmp_generic: "Generate src tmp =
     (case generateGeneric src 0 tmp of Ok (s, k) \<Rightarrow> Ok s | Error e \<Rightarrow> Error e | Panic \<Rightarrow> Panic)"
    by (rule Generate_generic) (simp add: tmp_def)
  have key: "generateAppKey src 0 opts =
     (case generateGeneric src 0 tmp of
        Ok (core, k) \<Rightarrow> Ok (write_segments (nat (sint (SegmentLength opts))) 0 core, k)
      | Error e \<Rightarrow> Error e
      | Panic \<Rightarrow> Panic)"
    using assms(2,3) grow
    by (auto simp: generateAppKey_def Let_def tmp_def [symmetric] split: result.splits)
  show ?thesis
  proof (cases "generateGeneric src 0 tmp")
    case (Ok r)
    obtain core k where r: "r = (core, k)" by (cases r)
    from Ok r have g: "generateGeneric src 0 tmp = Ok (core, k)" by simp
    have "minima_sum tmp < 2 ^ 63"
      using assms(5) by (simp add: tmp_def)
    from generateGeneric_length [OF g this] no(1)
    have "int (length core) = sint (Segments opts) * sint (SegmentLength opts)"
      by (simp add: tmp_def)
    then have "length core = nat (sint (Segments opts) * sint (SegmentLength opts))"
      by linarith
    with assms(2) have "length core = nat (sint (Segments opts)) * nat (sint (SegmentLength opts))"
      by (simp add: nat_mult_distrib)
    moreover from assms(3) have "0 < nat (sint (SegmentLength opts))"
      by simp
    ultimately have "write_segments (nat (sint (SegmentLength opts))) 0 core
       = spec_segment_formatter (nat (sint (Segments opts))) (nat (sint (SegmentLength opts))) core"
      by (intro write_segments_eq_spec)
    with g show ?thesis
      unfolding Generate_appkey [OF assms(1)] key tmp_generic tmp_def [symmetric]
      by simp
  next
    case (Error e)
    then show ?thesis
      unfolding Generate_appkey [OF assms(1)] key tmp_generic tmp_def [symmetric]
      by simp
  next
    case Panic
    then show ?thesis
      unfolding Generate_appkey [OF assms(1)] key tmp_generic tmp_def [symmetric]
      by simp
  qed
qed

subsection \<open>Lengths and minima without overflow\<close>

text \<open>
  Where neither the derived length nor the sum of the minima wraps around, the output
  has the derived length (with the dashes of an app key added), the error for minima
  that exceed the length is returned exactly when they do, and minima that add up to the
  length are met exactly.
\<close>

lemma length_join_dashes:
  "length (join_dashes gs) = sum_list (map length gs) + (length gs - 1)"
  by (induction gs rule: join_dashes.induct) simp_all

lemma length_segment_group:
  assumes "length core = n * segLen" and "g < n"
  shows "length (take segLen (drop (g * segLen) core)) = segLen"
proof -
  from assms(2) have "Suc g * segLen \<le> n * segLen"
    by (intro mult_le_mono1) simp
  then have "segLen \<le> n * segLen - g * segLen"
    by simp
  with assms(1) show ?thesis
    by simp
qed

lemma length_spec_segment_formatter:
  assumes "length core = n * segLen"
  shows "length (spec_segment_formatter n segLen core) = n * segLen + (n - 1)"
proof -
  have "map length (segment_groups n segLen core) = map (\<lambda>g. segLen) [0..<n]"
    unfolding segment_groups_def map_map comp_def
  proof (rule map_cong [OF refl])
    fix g assume "g \<in> set [0..<n]"
    then have "g < n" by simp
    with assms show "length (take segLen (drop (g * segLen) core)) = segLen"
      by (rule length_segment_group)
  qed
  then have "sum_list (map length (segment_groups n segLen core)) = n * segLen"
    by (simp add: sum_list_triv)
  moreover have "length (segment_groups n segLen core) = n"
    by (simp add: segment_groups_def)
  ultimately show ?thesis
    by (simp add: spec_segment_formatter_def length_join_dashes)
qed

lemma Generate_length_no_overflow:
  assumes "Generate src opts = Ok s" and "minima_sum opts < 2 ^ 63"
  shows "(Format opts = FormatGeneric \<longrightarrow> int (length s) = sint (Length opts))
    \<and> (Format opts = FormatAppKey
         \<and> sint (Segments opts) * sint (SegmentLength opts) + sint (Segments opts) - 1 < 2 ^ 63 \<longrightarrow>
       int (length s) = sint (Segments opts) * sint (SegmentLength opts) + sint (Segments opts) - 1)"
proof (intro conjI impI)
  assume f: "Format opts = FormatGeneric"
  with assms(1) obtain k where "generateGeneric src 0 opts = Ok (s, k)"
    by (auto simp: Generate_Ok_iff Generate_from_def format_defs)
  from generateGeneric_length [OF this assms(2)]
  show "int (length s) = sint (Length opts)" .
next
  assume a: "Format opts = FormatAppKey
         \<and> sint (Segments opts) * sint (SegmentLength opts) + sint (Segments opts) - 1 < 2 ^ 63"
  define tmp where "tmp = opts\<lparr>Length := Segments opts * SegmentLength opts, Format := FormatGeneric\<rparr>"
  from a assms(1) obtain k where ak: "generateAppKey src 0 opts = Ok (s, k)"
    by (auto simp: Generate_Ok_iff Generate_from_def format_defs)
  note pos = generateAppKey_Ok(2,3) [OF ak]
  from generateAppKey_Ok(1) [OF ak] obtain core where
    g: "generateGeneric src 0 tmp = Ok (core, k)"
    and s: "s = write_segments (nat (sint (SegmentLength opts))) 0 core"
    unfolding tmp_def by blast
  from a have no: "sint (Segments opts * SegmentLength opts) = sint (Segments opts) * sint (SegmentLength opts)"
    by (intro appkey_no_overflow(1) pos) simp
  from assms(2) have "minima_sum tmp < 2 ^ 63"
    by (simp add: tmp_def)
  from generateGeneric_length [OF g this] no
  have "int (length core) = sint (Segments opts) * sint (SegmentLength opts)"
    by (simp add: tmp_def)
  then have "length core = nat (sint (Segments opts) * sint (SegmentLength opts))"
    by linarith
  with pos(1) have lc: "length core = nat (sint (Segments opts)) * nat (sint (SegmentLength opts))"
    by (simp add: nat_mult_distrib)
  moreover from pos(2) have "0 < nat (sint (SegmentLength opts))"
    by simp
  ultimately have "s = spec_segment_formatter (nat (sint (Segments opts))) (nat (sint (SegmentLength opts))) core"
    unfolding s by (intro write_segments_eq_spec)
  then have "length s = nat (sint (Segments opts)) * nat (sint (SegmentLength opts)) + (nat (sint (Segments opts)) - 1)"
    using length_spec_segment_formatter [OF lc] by simp
  also from pos have "int \<dots> = sint (Segments opts) * sint (SegmentLength opts) + sint (Segments opts) - 1"
    by (simp add: nat_mult_distrib of_nat_diff)
  finally show "int (length s) = sint (Segments opts) * sint (SegmentLength opts) + sint (Segments opts) - 1" .
qed

lemma generic_request_simps [simp]:
  "collectClassesAndValidate (generic_request opts) = collectClassesAndValidate opts"
  "pool (generic_request opts) = pool opts"
  "minima_sum (generic_request opts) = minima_sum opts"
  "sint (Length (generic_request opts)) = derived_length opts"
  by (simp_all add: generic_request_def derived_length_def)

lemma reaches_validation_derived_length:
  "reaches_validation opts \<Longrightarrow> 0 < derived_length opts"
  by (auto simp: reaches_validation_def derived_length_def format_defs)

lemma Generate_Error_generic_request:
  assumes "reaches_validation opts"
  shows "Generate src opts = Error e \<longleftrightarrow> generateGeneric src 0 (generic_request opts) = Error e"
proof (cases "Format opts = FormatAppKey")
  case False
  with assms have "Format opts = FormatGeneric"
    by (auto simp: reaches_validation_def)
  then show ?thesis
    by (simp add: Generate_Error_iff Generate_from_def generic_request_def format_defs)
next
  case True
  with assms have pos: "0 < sint (Segments opts)" "0 < sint (SegmentLength opts)"
    by (auto simp: reaches_validation_def format_defs)
  have "generateAppKey src 0 opts = Error e \<longleftrightarrow> generateGeneric src 0 (generic_request opts) = Error e"
    using pos True by (auto simp: generateAppKey_def generic_request_def Let_def split: result.splits)
  with True show ?thesis
    by (simp add: Generate_Error_iff Generate_from_def format_defs)
qed

lemma Generate_MinimaExceedLength_iff:
  assumes "reaches_validation opts" and "collectClassesAndValidate opts = Ok (sets, mins)"
    and "minima_sum opts < 2 ^ 63"
  shows "(\<exists>a b. Generate src opts = Error (MinimaExceedLength a b)) \<longleftrightarrow>
     derived_length opts < minima_sum opts"
proof -
  note c = collect_Ok [OF assms(2)]
  from c(4) have "\<forall>m \<in> set (map snd (pool opts)). 0 \<le> sint m"
    by simp
  with assms(3) have tot: "sint (totalMin mins) = minima_sum opts"
    unfolding minima_sum_pool c(2) by (intro sint_totalMin)
  have l: "0 < sint (Length (generic_request opts))"
    using reaches_validation_derived_length [OF assms(1)] by simp
  have c': "collectClassesAndValidate (generic_request opts) = Ok (sets, mins)"
    using assms(2) by simp
  show ?thesis
  proof
    assume "\<exists>a b. Generate src opts = Error (MinimaExceedLength a b)"
    then obtain a b where "generateGeneric src 0 (generic_request opts) = Error (MinimaExceedLength a b)"
      unfolding Generate_Error_generic_request [OF assms(1)] by blast
    from generateGeneric_Error [OF this] c' tot show "derived_length opts < minima_sum opts"
      by (auto simp: draw_error_def)
  next
    assume "derived_length opts < minima_sum opts"
    with l c' tot have "generateGeneric src 0 (generic_request opts)
       = Error (MinimaExceedLength (totalMin mins) (Length (generic_request opts)))"
      by (simp add: generateGeneric_eq)
    then show "\<exists>a b. Generate src opts = Error (MinimaExceedLength a b)"
      unfolding Generate_Error_generic_request [OF assms(1)] by blast
  qed
qed

lemma randomRune_never_fails:
  assumes "never_fails src" and "cs \<noteq> []"
  shows "\<exists>r. randomRune src k cs = Ok (r, Suc k)"
proof -
  from assms(1) obtain v where "src k = Gives v"
    unfolding never_fails_def by blast
  with assms(2) show ?thesis
    by (simp add: randomRune_def rand_Int_def)
qed

lemma draw_minimum_never_fails:
  assumes "never_fails src" and "cs \<noteq> []"
  shows "\<exists>out' k'. draw_minimum src k cs n out = Ok (out', k')"
proof (induction n arbitrary: k out)
  case 0
  show ?case by simp
next
  case (Suc n)
  from randomRune_never_fails [OF assms] obtain r where "randomRune src k cs = Ok (r, Suc k)"
    by blast
  with Suc [of "Suc k" "out @ [r]"] show ?case
    by simp
qed

lemma satisfy_minima_never_fails:
  assumes "never_fails src" and "\<forall>p \<in> set pl. fst p \<noteq> []"
  shows "\<exists>out' k'. satisfy_minima src k (map fst pl) (map snd pl) out = Ok (out', k')"
  using assms(2)
proof (induction pl arbitrary: k out)
  case Nil
  show ?case by simp
next
  case (Cons p pl)
  from Cons.prems have "fst p \<noteq> []" by simp
  from draw_minimum_never_fails [OF assms(1) this]
  obtain out1 k1 where "draw_minimum src k (fst p) (nat (sint (snd p))) out = Ok (out1, k1)"
    by blast
  moreover from Cons.prems have "\<exists>out' k'. satisfy_minima src k1 (map fst pl) (map snd pl) out1 = Ok (out', k')"
    by (intro Cons.IH) simp
  ultimately show ?case
    by simp
qed

lemma fill_remainder_never_fails:
  assumes "never_fails src" and "all \<noteq> []"
  shows "\<exists>out' k'. fill_remainder src k all len out = Ok (out', k')"
  using assms
proof (induction src k all len out rule: fill_remainder.induct)
  case (1 src k all len out)
  show ?case
  proof (cases "int (length out) < sint len")
    case False
    then show ?thesis
      by (subst fill_remainder.simps) simp
  next
    case True
    from randomRune_never_fails [OF "1.prems"] obtain r where r: "randomRune src k all = Ok (r, Suc k)"
      by blast
    from "1.IH" [OF True r refl "1.prems"]
    obtain out' k' where "fill_remainder src (Suc k) all len (out @ [r]) = Ok (out', k')"
      by blast
    with True r show ?thesis
      by (subst fill_remainder.simps) simp
  qed
qed

lemma shuffle_from_never_fails:
  assumes "never_fails src"
  shows "\<exists>r' k'. shuffle_from src k r i = Ok (r', k')"
proof (induction i arbitrary: k r)
  case 0
  show ?case by simp
next
  case (Suc i)
  from assms obtain v where "src k = Gives v"
    unfolding never_fails_def by blast
  then have "rand_Int src k (Suc i + 1) = Ok (v mod (Suc i + 1), Suc k)"
    by (simp add: rand_Int_def)
  with Suc [of "Suc k"] show ?case
    by simp
qed

lemma pool_classes_nonempty:
  "p \<in> set (pool opts) \<Longrightarrow> fst p \<noteq> []"
  by (auto simp: pool_mem_iff lowerChars_def upperChars_def numberChars_def symbolChars_def)

lemma generateGeneric_never_fails:
  assumes "never_fails src" and "0 < sint (Length opts)"
    and "collectClassesAndValidate opts = Ok (sets, mins)"
    and "sint (totalMin mins) \<le> sint (Length opts)"
    and "4 * sint (Length opts) \<le> maxAlloc"
  shows "\<exists>s k'. generateGeneric src k opts = Ok (s, k')"
proof -
  note c = collect_Ok [OF assms(3)]
  have ne: "\<forall>p \<in> set (pool opts). fst p \<noteq> []"
    by (simp add: pool_classes_nonempty)
  from satisfy_minima_never_fails [OF assms(1) ne]
  obtain out1 k1 where m: "satisfy_minima src k sets mins [] = Ok (out1, k1)"
    unfolding c(1,2) by blast
  from c(3) obtain p where p: "p \<in> set (pool opts)"
    by (cases "pool opts") auto
  with ne have "fst p \<noteq> []" by blast
  moreover from p have "fst p \<in> set (map fst (pool opts))" by simp
  ultimately have "concatClasses sets \<noteq> []"
    unfolding c(1) concatClasses_def concat_eq_Nil_conv by blast
  from fill_remainder_never_fails [OF assms(1) this]
  obtain out2 k2 where f: "fill_remainder src k1 (concatClasses sets) (Length opts) out1 = Ok (out2, k2)"
    by blast
  from shuffle_from_never_fails [OF assms(1)]
  obtain s k' where "shuffleRunes src k2 out2 = Ok (s, k')"
    unfolding shuffleRunes_def by blast
  with assms(2-5) m f show ?thesis
    by (simp add: generateGeneric_eq)
qed

lemma four_classes_le_length:
  "count_class lowerChars s + count_class upperChars s + count_class numberChars s + count_class symbolChars s
     \<le> length s"
proof (induction s)
  case Nil
  show ?case by simp
next
  case (Cons c s)
  consider "c \<in> set lowerChars" "c \<notin> set upperChars" "c \<notin> set numberChars" "c \<notin> set symbolChars"
    | "c \<notin> set lowerChars" "c \<in> set upperChars" "c \<notin> set numberChars" "c \<notin> set symbolChars"
    | "c \<notin> set lowerChars" "c \<notin> set upperChars" "c \<in> set numberChars" "c \<notin> set symbolChars"
    | "c \<notin> set lowerChars" "c \<notin> set upperChars" "c \<notin> set numberChars"
    using classes_disjoint by blast
  then show ?case
    using Cons by cases (simp_all add: count_class_def)
qed

lemma exact_from_bounds:
  fixes a b c d ma mb mc md :: int
  assumes "A \<longrightarrow> ma \<le> a" and "B \<longrightarrow> mb \<le> b" and "C \<longrightarrow> mc \<le> c" and "D \<longrightarrow> md \<le> d"
    and "0 \<le> a" and "0 \<le> b" and "0 \<le> c" and "0 \<le> d"
    and "a + b + c + d \<le> (if A then ma else 0) + (if B then mb else 0)
       + (if C then mc else 0) + (if D then md else 0)"
  shows "(A \<longrightarrow> a = ma) \<and> (B \<longrightarrow> b = mb) \<and> (C \<longrightarrow> c = mc) \<and> (D \<longrightarrow> d = md)"
  using assms by (auto split: if_splits)

lemma Generate_generic_request_Ok:
  assumes "reaches_validation opts"
    and "generateGeneric src 0 (generic_request opts) = Ok (core, k)"
    and "Format opts = FormatAppKey \<longrightarrow>
       sint (Segments opts) * sint (SegmentLength opts) + sint (Segments opts) - 1 < 2 ^ 63"
  shows "\<exists>s. Generate src opts = Ok s \<and> core_of opts s = core"
proof (cases "Format opts = FormatAppKey")
  case False
  with assms(1) have "Format opts = FormatGeneric"
    by (auto simp: reaches_validation_def)
  with assms(2) False show ?thesis
    by (simp add: Generate_generic generic_request_def core_of_def)
next
  case True
  with assms(1) have pos: "0 < sint (Segments opts)" "0 < sint (SegmentLength opts)"
    by (auto simp: reaches_validation_def format_defs)
  from True assms(3) have "sint (Segments opts) * sint (SegmentLength opts) + sint (Segments opts) - 1 < 2 ^ 63"
    by simp
  moreover from generateGeneric_Ok(5) [OF assms(2)] True
  have "4 * sint (Segments opts * SegmentLength opts) \<le> maxAlloc"
    by (simp add: generic_request_def)
  ultimately have "\<not> Grow_panics (Segments opts * SegmentLength opts + (Segments opts - 1))"
    by (intro Grow_after_generic pos)
  with pos assms(2) True
  have "generateAppKey src 0 opts = Ok (write_segments (nat (sint (SegmentLength opts))) 0 core, k)"
    by (simp add: generateAppKey_def generic_request_def Let_def)
  with True show ?thesis
    by (simp add: Generate_appkey core_of_def generated_runes_write_segments)
qed

lemma Generate_exact_minima:
  assumes "reaches_validation opts" and "collectClassesAndValidate opts = Ok (sets, mins)"
    and "minima_sum opts = derived_length opts"
    and "never_fails src"
    and "Format opts = FormatAppKey \<longrightarrow>
       sint (Segments opts) * sint (SegmentLength opts) + sint (Segments opts) - 1 < 2 ^ 63"
    and "4 * derived_length opts \<le> maxAlloc"
  shows "\<exists>s. Generate src opts = Ok s
     \<and> (UseLower opts \<longrightarrow> int (count_class lowerChars (core_of opts s)) = sint (MinLower opts))
     \<and> (UseUpper opts \<longrightarrow> int (count_class upperChars (core_of opts s)) = sint (MinUpper opts))
     \<and> (UseNumber opts \<longrightarrow> int (count_class numberChars (core_of opts s)) = sint (MinNumber opts))
     \<and> (UseSymbol opts \<longrightarrow> int (count_class symbolChars (core_of opts s)) = sint (MinSymbol opts))"
proof -
  note c = collect_Ok [OF assms(2)]
  have "derived_length opts < 2 ^ 63"
    using sint_lt [of "Length opts"] sint_lt [of "Segments opts * SegmentLength opts"]
    by (simp add: derived_length_def)
  with assms(3) have small: "minima_sum opts < 2 ^ 63"
    by simp
  from c(4) have "\<forall>m \<in> set (map snd (pool opts)). 0 \<le> sint m"
    by simp
  with small have "sint (totalMin mins) = minima_sum opts"
    unfolding minima_sum_pool c(2) by (intro sint_totalMin)
  with assms(3) have tot: "sint (totalMin mins) \<le> sint (Length (generic_request opts))"
    by simp
  have l: "0 < sint (Length (generic_request opts))"
    using reaches_validation_derived_length [OF assms(1)] by simp
  have c': "collectClassesAndValidate (generic_request opts) = Ok (sets, mins)"
    using assms(2) by simp
  have "4 * sint (Length (generic_request opts)) \<le> maxAlloc"
    using assms(6) by simp
  from generateGeneric_never_fails [OF assms(4) l c' tot this]
  obtain core k where g: "generateGeneric src 0 (generic_request opts) = Ok (core, k)"
    by blast
  from Generate_generic_request_Ok [OF assms(1) g assms(5)]
  obtain s where s: "Generate src opts = Ok s" "core_of opts s = core"
    by blast
  have "minima_sum (generic_request opts) < 2 ^ 63"
    using small by simp
  from generateGeneric_length [OF g this] assms(3)
  have len: "int (length core) = minima_sum opts"
    by simp
  have m: "sint (snd p) \<le> int (count_class (fst p) core)" if "p \<in> set (pool opts)" for p
    using generateGeneric_minimum [OF g, of p] that by simp
  from m [of "(lowerChars, MinLower opts)"] m [of "(upperChars, MinUpper opts)"]
    m [of "(numberChars, MinNumber opts)"] m [of "(symbolChars, MinSymbol opts)"]
  have lower: "(UseLower opts \<longrightarrow> sint (MinLower opts) \<le> int (count_class lowerChars core))
    \<and> (UseUpper opts \<longrightarrow> sint (MinUpper opts) \<le> int (count_class upperChars core))
    \<and> (UseNumber opts \<longrightarrow> sint (MinNumber opts) \<le> int (count_class numberChars core))
    \<and> (UseSymbol opts \<longrightarrow> sint (MinSymbol opts) \<le> int (count_class symbolChars core))"
    by (simp add: pool_mem_iff)
  from four_classes_le_length [of core] len
  have upper: "int (count_class lowerChars core) + int (count_class upperChars core)
     + int (count_class numberChars core) + int (count_class symbolChars core) \<le> minima_sum opts"
    by linarith
  from lower upper
  have "(UseLower opts \<longrightarrow> int (count_class lowerChars core) = sint (MinLower opts))
     \<and> (UseUpper opts \<longrightarrow> int (count_class upperChars core) = sint (MinUpper opts))
     \<and> (UseNumber opts \<longrightarrow> int (count_class numberChars core) = sint (MinNumber opts))
     \<and> (UseSymbol opts \<longrightarrow> int (count_class symbolChars core) = sint (MinSymbol opts))"
    unfolding minima_sum_def
    by (intro exact_from_bounds) simp_all
  with s show ?thesis
    by blast
qed

subsection \<open>Where a failing source is an error and where it is a panic\<close>

text \<open>
  The draws of the composition never panic: a failure of the source there ends the loop
  with the error of the source. A panic of \<open>generateGeneric\<close> is the allocation of a
  slice above the largest allocation, before any draw, or a failure of the source in the
  shuffle.
\<close>

lemma randomRune_no_Panic:
  "randomRune src k cs \<noteq> Panic"
  by (auto simp: randomRune_def rand_Int_def split: event.splits)

lemma randomRune_failure:
  assumes "src k = Fails m" and "cs \<noteq> []"
  shows "randomRune src k cs = Error (EntropySourceFailure m)"
  using assms by (simp add: randomRune_def rand_Int_def)

lemma draw_minimum_no_Panic:
  "draw_minimum src k cs n out \<noteq> Panic"
  by (induction n arbitrary: k out) (auto simp: randomRune_no_Panic split: result.splits)

lemma satisfy_minima_no_Panic:
  "satisfy_minima src k (map fst pl) (map snd pl) out \<noteq> Panic"
  by (induction pl arbitrary: k out) (auto simp: draw_minimum_no_Panic split: result.splits)

lemma fill_remainder_no_Panic:
  "fill_remainder src k all len out \<noteq> Panic"
proof (induction src k all len out rule: fill_remainder.induct)
  case (1 src k all len out)
  then show ?case
    by (subst fill_remainder.simps) (auto simp: randomRune_no_Panic split: result.splits)
qed

lemma shuffle_from_Panic:
  assumes "shuffle_from src k r i = Panic"
  shows "\<exists>j m. k \<le> j \<and> src j = Fails m"
  using assms
proof (induction i arbitrary: k r)
  case 0
  then show ?case by simp
next
  case (Suc i)
  show ?case
  proof (cases "src k")
    case (Fails m)
    then show ?thesis by blast
  next
    case (Gives v)
    with Suc.prems have "shuffle_from src (Suc k) (r[Suc i := r ! (v mod (Suc i + 1)), v mod (Suc i + 1) := r ! Suc i]) i = Panic"
      by (simp add: rand_Int_def)
    from Suc.IH [OF this] obtain j m where "Suc k \<le> j" "src j = Fails m"
      by blast
    then have "k \<le> j \<and> src j = Fails m" by simp
    then show ?thesis by blast
  qed
qed

lemma generateGeneric_make_Panic:
  assumes "0 < sint (Length opts)" and "collectClassesAndValidate opts = Ok (sets, mins)"
    and "sint (totalMin mins) \<le> sint (Length opts)" and "maxAlloc < 4 * sint (Length opts)"
  shows "generateGeneric src k opts = Panic"
  using assms by (simp add: generateGeneric_eq)

lemma generateGeneric_Panic:
  assumes "generateGeneric src k opts = Panic"
  shows "maxAlloc < 4 * sint (Length opts)
     \<or> (\<exists>out k2. shuffleRunes src k2 out = Panic \<and> (\<exists>j m. k2 \<le> j \<and> src j = Fails m))"
proof (cases "maxAlloc < 4 * sint (Length opts)")
  case True
  then show ?thesis ..
next
  case False
  from assms obtain sets mins where c: "collectClassesAndValidate opts = Ok (sets, mins)"
    by (auto simp: generateGeneric_eq collect_eq split: if_splits)
  note sm = collect_Ok(1,2) [OF c]
  from assms c False obtain out k2 where "shuffleRunes src k2 out = Panic"
    by (auto simp: generateGeneric_eq sm satisfy_minima_no_Panic fill_remainder_no_Panic
        split: if_splits result.splits)
  moreover from this have "\<exists>j m. k2 \<le> j \<and> src j = Fails m"
    unfolding shuffleRunes_def by (rule shuffle_from_Panic)
  ultimately show ?thesis by blast
qed

lemma guid_failure_returned:
  assumes "Format opts = FormatGUID" and "src 0 = Fails m"
  shows "Generate src opts = Error (EntropySourceFailure m)"
  using assms by (simp add: Generate_def Generate_from_def generateUUIDv4_def rand_Read_def)

subsection \<open>The UUID\<close>

lemma rand_Read_length:
  "rand_Read src k n = Ok (b, k') \<Longrightarrow> length b = n"
  by (auto simp: rand_Read_def split: event.splits)

lemma hex_low_nibble: "hexdigits ! unat (x AND 0x0F) \<in> set hexdigits" for x :: byte
proof -
  have "unat (x AND 0x0F) \<le> unat (0x0F :: byte)"
    by (rule word_and_le1 [THEN word_le_nat_alt [THEN iffD1]])
  then have "unat (x AND 0x0F) < length hexdigits"
    by (simp add: hexdigits_def)
  then show ?thesis by (rule nth_mem)
qed

lemma length_hexdigits: "length hexdigits = 16"
  by (simp add: hexdigits_def)

lemma hex_high_nibble: "hexdigits ! unat (drop_bit 4 x) \<in> set hexdigits" for x :: byte
proof -
  have "unat x < 2 ^ 8"
    using unsigned_less [of x, where 'a = nat] by simp
  moreover have "unat (drop_bit 4 x) = unat x div 2 ^ 4"
    by (simp add: drop_bit_eq_div unat_div)
  ultimately have "unat (drop_bit 4 x) < length hexdigits"
    unfolding length_hexdigits by simp
  then show ?thesis by (rule nth_mem)
qed

lemma version_nibble: "drop_bit 4 ((x AND 0x0F) OR 0x40) = (4 :: byte)"
  by simp

lemma small_word_cases:
  fixes y :: byte
  assumes "unat y \<le> 3"
  shows "y = 0 \<or> y = 1 \<or> y = 2 \<or> y = 3"
proof -
  from assms have "unat y = 0 \<or> unat y = 1 \<or> unat y = 2 \<or> unat y = 3"
    by arith
  then have "word_of_nat (unat y) = (0 :: byte) \<or> word_of_nat (unat y) = (1 :: byte)
    \<or> word_of_nat (unat y) = (2 :: byte) \<or> word_of_nat (unat y) = (3 :: byte)"
    by (elim disjE) simp_all
  then show ?thesis by simp
qed

lemma variant_nibble:
  "drop_bit 4 ((x AND 0x3F) OR 0x80) \<in> {8, 9, 10, 11 :: byte}"
proof -
  have "unat (drop_bit 4 x AND 3) \<le> unat (3 :: byte)"
    by (rule word_and_le1 [THEN word_le_nat_alt [THEN iffD1]])
  then have "drop_bit 4 x AND 3 = 0 \<or> drop_bit 4 x AND 3 = 1 \<or> drop_bit 4 x AND 3 = 2 \<or> drop_bit 4 x AND 3 = 3"
    by (intro small_word_cases) simp
  moreover have "drop_bit 4 ((x AND 0x3F) OR 0x80) = (drop_bit 4 x AND 3) OR 8"
    by simp
  ultimately show ?thesis
    by (elim disjE) simp_all
qed

lemma sixteen_bytes:
  assumes "length (b :: byte list) = 16"
  obtains b0 b1 b2 b3 b4 b5 b6 b7 b8 b9 b10 b11 b12 b13 b14 b15
  where "b = [b0, b1, b2, b3, b4, b5, b6, b7, b8, b9, b10, b11, b12, b13, b14, b15]"
  using assms by (auto simp: numeral_eq_Suc length_Suc_conv)

lemma uuid_shape:
  assumes "length b = 16"
  defines "s \<equiv> write_uuid 0 (set_version_variant b)"
  shows "length s = 36" 
    and "s ! 8 = CHR ''-''" and "s ! 13 = CHR ''-''" and "s ! 18 = CHR ''-''" and "s ! 23 = CHR ''-''"
    and "s ! 14 = CHR ''4''"
    and "s ! 19 \<in> {CHR ''8'', CHR ''9'', CHR ''a'', CHR ''b''}"
    and "\<forall>i<36. i \<notin> {8, 13, 18, 23} \<longrightarrow> s ! i \<in> set hexdigits"
proof -
  from assms(1) obtain b0 b1 b2 b3 b4 b5 b6 b7 b8 b9 b10 b11 b12 b13 b14 b15
    where b: "b = [b0, b1, b2, b3, b4, b5, b6, b7, b8, b9, b10, b11, b12, b13, b14, b15]"
    by (rule sixteen_bytes)
  define v6 where "v6 = (b6 AND 0x0F) OR 0x40"
  define v8 where "v8 = (b8 AND 0x3F) OR 0x80"
  have s: "s = hex b0 @ hex b1 @ hex b2 @ hex b3 @ ''-'' @ hex b4 @ hex b5 @ ''-'' @ hex v6 @ hex b7 @ ''-''
      @ hex v8 @ hex b9 @ ''-'' @ hex b10 @ hex b11 @ hex b12 @ hex b13 @ hex b14 @ hex b15"
    by (simp add: s_def b set_version_variant_def v6_def v8_def)
  show "length s = 36" by (simp add: s hex_def)
  show "s ! 8 = CHR ''-''" "s ! 13 = CHR ''-''" "s ! 18 = CHR ''-''" "s ! 23 = CHR ''-''"
    by (simp_all add: s hex_def)
  have "s ! 14 = hexdigits ! unat (drop_bit 4 v6)"
    by (simp add: s hex_def)
  also have "drop_bit 4 v6 = 4"
    unfolding v6_def by (rule version_nibble)
  finally show "s ! 14 = CHR ''4''"
    by (simp add: hexdigits_def)
  have "s ! 19 = hexdigits ! unat (drop_bit 4 v8)"
    by (simp add: s hex_def)
  moreover have "drop_bit 4 v8 \<in> {8, 9, 10, 11}"
    unfolding v8_def by (rule variant_nibble)
  ultimately show "s ! 19 \<in> {CHR ''8'', CHR ''9'', CHR ''a'', CHR ''b''}"
    by (auto simp: hexdigits_def)
  have "s ! i \<in> set hexdigits" if "i < 36" "i \<notin> {8, 13, 18, 23}" for i
  proof -
    from that(1) have "i \<in> {0,1,2,3,4,5,6,7,8,9,10,11,12,13,14,15,16,17,18,19,20,21,22,23,24,25,26,27,28,29,30,31,32,33,34,35}"
      by simp arith
    with that(2) show ?thesis
      by (auto simp: s hex_def hex_low_nibble hex_high_nibble)
  qed
  then show "\<forall>i<36. i \<notin> {8, 13, 18, 23} \<longrightarrow> s ! i \<in> set hexdigits"
    by blast
qed

section \<open>The claims\<close>

text \<open>
  C1. A successful \<open>Generate\<close> returns \<open>segments * segmentLength + segments - 1\<close>
  characters for an app key. The code computes \<open>total := o.Segments * o.SegmentLength\<close>
  in machine integers: for 3 segments of length 6148914691236517206 the product wraps
  around to 2, and \<open>Generate\<close> returns two characters and no dash.
\<close>

theorem appkey_length_overflow:
  "0 < sint (Segments cfg_segments_overflow) \<and> 0 < sint (SegmentLength cfg_segments_overflow)
   \<and> Generate (\<lambda>k. Gives k) cfg_segments_overflow = Ok ''ba''
   \<and> int (length ''ba'') \<noteq>
       sint (Segments cfg_segments_overflow) * sint (SegmentLength cfg_segments_overflow)
         + sint (Segments cfg_segments_overflow) - 1"
proof -
  have "Generate (\<lambda>k. Gives k) cfg_segments_overflow = Ok ''ba''"
    by (simp add: cfg_segments_overflow_def Generate_def Generate_from_def generateAppKey_def
        generateGeneric_eq Grow_panics_def maxAlloc_def format_defs collectClassesAndValidate_def
        totalMin_def
        fill_remainder.simps randomRune_def rand_Int_def concatClasses_def shuffleRunes_def
        lowerChars_def upperChars_def numberChars_def symbolChars_def)
  then show ?thesis
    by (simp add: cfg_segments_overflow_def)
qed

text \<open>
  C2. Whenever \<open>Generate\<close> succeeds on a generic or app-key configuration, each
  toggled-on class has at least its minimum of runes among the runes that were drawn
  (the output itself for the generic format, the output without its separators for the
  app key).
\<close>

theorem minima_satisfied:
  assumes "Format opts = FormatGeneric \<or> Format opts = FormatAppKey" and "Generate src opts = Ok s"
  shows "(UseLower opts \<longrightarrow> sint (MinLower opts) \<le> int (count_class lowerChars (core_of opts s)))
    \<and> (UseUpper opts \<longrightarrow> sint (MinUpper opts) \<le> int (count_class upperChars (core_of opts s)))
    \<and> (UseNumber opts \<longrightarrow> sint (MinNumber opts) \<le> int (count_class numberChars (core_of opts s)))
    \<and> (UseSymbol opts \<longrightarrow> sint (MinSymbol opts) \<le> int (count_class symbolChars (core_of opts s)))"
proof -
  from Generate_core [OF assms] obtain l k where
    g: "generateGeneric src 0 (opts\<lparr>Length := l, Format := FormatGeneric\<rparr>) = Ok (core_of opts s, k)"
    by blast
  have m: "sint (snd p) \<le> int (count_class (fst p) (core_of opts s))" if "p \<in> set (pool opts)" for p
    using generateGeneric_minimum [OF g, of p] that by simp
  from m [of "(lowerChars, MinLower opts)"] m [of "(upperChars, MinUpper opts)"]
    m [of "(numberChars, MinNumber opts)"] m [of "(symbolChars, MinSymbol opts)"]
  show ?thesis
    by (simp add: pool_mem_iff)
qed

theorem minima_satisfied_witness:
  "Format cfg_appkey = FormatAppKey
   \<and> Generate (\<lambda>k. Gives (k + 9)) cfg_appkey = Ok ''_o-Jn--m''
   \<and> core_of cfg_appkey ''_o-Jn--m'' = ''_oJn-m''
   \<and> UseLower cfg_appkey \<and> UseUpper cfg_appkey \<and> UseNumber cfg_appkey \<and> UseSymbol cfg_appkey
   \<and> sint (MinLower cfg_appkey) \<le> int (count_class lowerChars (core_of cfg_appkey ''_o-Jn--m''))
   \<and> sint (MinUpper cfg_appkey) \<le> int (count_class upperChars (core_of cfg_appkey ''_o-Jn--m''))
   \<and> sint (MinNumber cfg_appkey) \<le> int (count_class numberChars (core_of cfg_appkey ''_o-Jn--m''))
   \<and> sint (MinSymbol cfg_appkey) \<le> int (count_class symbolChars (core_of cfg_appkey ''_o-Jn--m''))"
proof -
  have f: "Format cfg_appkey = FormatGeneric \<or> Format cfg_appkey = FormatAppKey"
    by (simp add: cfg_appkey_def)
  have g: "Generate (\<lambda>k. Gives (k + 9)) cfg_appkey = Ok ''_o-Jn--m''"
    unfolding cfg_appkey_def by code_simp
  have c: "core_of cfg_appkey ''_o-Jn--m'' = ''_oJn-m''"
    unfolding cfg_appkey_def by code_simp
  have t: "UseLower cfg_appkey" "UseUpper cfg_appkey" "UseNumber cfg_appkey" "UseSymbol cfg_appkey"
    by (simp_all add: cfg_appkey_def)
  from minima_satisfied [OF f g] t have
    "sint (MinLower cfg_appkey) \<le> int (count_class lowerChars (core_of cfg_appkey ''_o-Jn--m''))
   \<and> sint (MinUpper cfg_appkey) \<le> int (count_class upperChars (core_of cfg_appkey ''_o-Jn--m''))
   \<and> sint (MinNumber cfg_appkey) \<le> int (count_class numberChars (core_of cfg_appkey ''_o-Jn--m''))
   \<and> sint (MinSymbol cfg_appkey) \<le> int (count_class symbolChars (core_of cfg_appkey ''_o-Jn--m''))"
    by blast
  moreover have "Format cfg_appkey = FormatAppKey"
    by (simp add: cfg_appkey_def)
  ultimately show ?thesis
    using g c t by blast
qed

text \<open>
  C3. Whenever \<open>Generate\<close> succeeds on a generic or app-key configuration, every rune
  that was drawn (every character of a generic output, every character of an app-key
  output that is not a separator) belongs to the set of a toggled-on class, and to the
  set of no class that is toggled off.
\<close>

theorem only_enabled_classes:
  assumes "Format opts = FormatGeneric \<or> Format opts = FormatAppKey" and "Generate src opts = Ok s"
  shows "\<forall>c \<in> set (core_of opts s).
      (UseLower opts \<and> c \<in> set lowerChars \<or> UseUpper opts \<and> c \<in> set upperChars
       \<or> UseNumber opts \<and> c \<in> set numberChars \<or> UseSymbol opts \<and> c \<in> set symbolChars)
    \<and> (\<not> UseLower opts \<longrightarrow> c \<notin> set lowerChars) \<and> (\<not> UseUpper opts \<longrightarrow> c \<notin> set upperChars)
    \<and> (\<not> UseNumber opts \<longrightarrow> c \<notin> set numberChars) \<and> (\<not> UseSymbol opts \<longrightarrow> c \<notin> set symbolChars)"
proof
  fix c assume c: "c \<in> set (core_of opts s)"
  from Generate_core [OF assms] obtain l k where
    g: "generateGeneric src 0 (opts\<lparr>Length := l, Format := FormatGeneric\<rparr>) = Ok (core_of opts s, k)"
    by blast
  from generateGeneric_chars [OF g c]
  have en: "UseLower opts \<and> c \<in> set lowerChars \<or> UseUpper opts \<and> c \<in> set upperChars
       \<or> UseNumber opts \<and> c \<in> set numberChars \<or> UseSymbol opts \<and> c \<in> set symbolChars"
    by (auto simp: pool_mem_iff)
  with classes_disjoint
  show "(UseLower opts \<and> c \<in> set lowerChars \<or> UseUpper opts \<and> c \<in> set upperChars
       \<or> UseNumber opts \<and> c \<in> set numberChars \<or> UseSymbol opts \<and> c \<in> set symbolChars)
    \<and> (\<not> UseLower opts \<longrightarrow> c \<notin> set lowerChars) \<and> (\<not> UseUpper opts \<longrightarrow> c \<notin> set upperChars)
    \<and> (\<not> UseNumber opts \<longrightarrow> c \<notin> set numberChars) \<and> (\<not> UseSymbol opts \<longrightarrow> c \<notin> set symbolChars)"
    by blast
qed

theorem only_enabled_classes_witness:
  "Format cfg_lower_digits = FormatGeneric
   \<and> Generate (\<lambda>k. Gives (3 * k + 5)) cfg_lower_digits = Ok ''7il4f''
   \<and> UseLower cfg_lower_digits \<and> \<not> UseUpper cfg_lower_digits
   \<and> UseNumber cfg_lower_digits \<and> \<not> UseSymbol cfg_lower_digits
   \<and> set (core_of cfg_lower_digits ''7il4f'') \<subseteq> set lowerChars \<union> set numberChars
   \<and> set (core_of cfg_lower_digits ''7il4f'') \<inter> set upperChars = {}
   \<and> set (core_of cfg_lower_digits ''7il4f'') \<inter> set symbolChars = {}"
proof -
  have f: "Format cfg_lower_digits = FormatGeneric \<or> Format cfg_lower_digits = FormatAppKey"
    by (simp add: cfg_lower_digits_def)
  have g: "Generate (\<lambda>k. Gives (3 * k + 5)) cfg_lower_digits = Ok ''7il4f''"
    unfolding cfg_lower_digits_def by code_simp
  have t: "UseLower cfg_lower_digits" "\<not> UseUpper cfg_lower_digits"
    "UseNumber cfg_lower_digits" "\<not> UseSymbol cfg_lower_digits"
    by (simp_all add: cfg_lower_digits_def)
  from only_enabled_classes [OF f g] t
  have "set (core_of cfg_lower_digits ''7il4f'') \<subseteq> set lowerChars \<union> set numberChars
   \<and> set (core_of cfg_lower_digits ''7il4f'') \<inter> set upperChars = {}
   \<and> set (core_of cfg_lower_digits ''7il4f'') \<inter> set symbolChars = {}"
    by blast
  moreover have "Format cfg_lower_digits = FormatGeneric"
    by (simp add: cfg_lower_digits_def)
  ultimately show ?thesis
    using g t by blast
qed

text \<open>
  C4. \<open>Generate\<close> fails with \<open>MinimaExceedLength\<close> when the sum of the minima exceeds the
  length. The code adds the minima in machine integers: for the minima 9223372036854775807
  and 1 and the length 1, \<open>totalMin\<close> wraps around to a negative number, the check
  \<open>totalMin > o.Length\<close> passes, and whatever the source does \<open>Generate\<close> does not
  return that error.
\<close>

theorem minima_sum_overflow_not_rejected:
  "sint (Length cfg_minima_overflow) < minima_sum cfg_minima_overflow
   \<and> (\<forall>src a b. Generate src cfg_minima_overflow \<noteq> Error (MinimaExceedLength a b))"
proof -
  have r: "reaches_validation cfg_minima_overflow"
    by (simp add: reaches_validation_def cfg_minima_overflow_def format_defs)
  have c: "collectClassesAndValidate cfg_minima_overflow
     = Ok ([lowerChars, upperChars], [9223372036854775807, 1])"
    by (simp add: collect_eq pool_def cfg_minima_overflow_def)
  have t: "sint (totalMin [9223372036854775807, 1 :: go_int]) < 0"
    by (simp add: totalMin_def)
  have "Generate src cfg_minima_overflow \<noteq> Error (MinimaExceedLength a b)" for src a b
  proof
    assume "Generate src cfg_minima_overflow = Error (MinimaExceedLength a b)"
    then have "generateGeneric src 0 cfg_minima_overflow = Error (MinimaExceedLength a b)"
      by (simp add: Generate_Error_iff Generate_from_def format_defs cfg_minima_overflow_def)
    from generateGeneric_Error [OF this] c t show False
      by (auto simp: draw_error_def cfg_minima_overflow_def)
  qed
  moreover have "sint (Length cfg_minima_overflow) < minima_sum cfg_minima_overflow"
    by (simp add: cfg_minima_overflow_def minima_sum_def)
  ultimately show ?thesis by blast
qed

text \<open>
  C5. For a generic or app-key configuration, any negative minimum makes \<open>Generate\<close>
  fail with \<open>NegativeMinimum\<close>, also on a class whose toggle is off (the README:
  "Minima must be >= 0"; the message: "minimum counts cannot be negative"). The code tests
  only the minima it collected, those of the toggled-on classes, and tests a toggled-off
  class for a minimum above 0 only: for the generic configuration of length 4 with
  lowercase off and \<open>MinLower = -1\<close>, \<open>Generate\<close> returns a password and no error.
\<close>

theorem negative_minimum_on_disabled_class_accepted:
  "sint (MinLower cfg_negative_disabled) < 0
   \<and> Generate (\<lambda>k. Gives k) cfg_negative_disabled = Ok ''BDCA''"
  unfolding cfg_negative_disabled_def by code_simp

text \<open>
  C6. Every failure of the secure random source is returned by \<open>Generate\<close> as an
  error. The code does not do that for the draws of the shuffle: \<open>shuffleRunes\<close>
  discards the error of \<open>rand.Int\<close> and dereferences the \<open>nil\<close> result. With a
  source that serves the two draws of a two-letter password and fails at the third call
  (the first draw of the shuffle), \<open>Generate\<close> panics instead of returning the error.
\<close>

theorem shuffle_draw_failure_panics:
  "Generate (\<lambda>k. if k < 2 then Gives k else Fails ''entropy pool unavailable'')
     \<lparr>Format = FormatGeneric, Length = 2,
      UseLower = True, UseUpper = False, UseNumber = False, UseSymbol = False,
      MinLower = 0, MinUpper = 0, MinNumber = 0, MinSymbol = 0,
      Segments = 4, SegmentLength = 4\<rparr> = Panic"
  by code_simp

text \<open>
  C7. For every configuration with \<open>Format = guid\<close>, whatever its other fields are,
  and every 16 bytes \<open>b\<close> that \<open>rand.Read\<close> delivers, \<open>Generate\<close> returns the string
  rendered from \<open>b\<close> alone: 36 characters, a hyphen at the positions 8, 13, 18 and 23,
  a lowercase hexadecimal digit at every other position, \<open>4\<close> at position 14 and one of
  \<open>8\<close>, \<open>9\<close>, \<open>a\<close>, \<open>b\<close> at position 19.
\<close>

theorem guid_format:
  assumes "Format opts = FormatGUID" and "rand_Read src 0 16 = Ok (b, k)"
  shows "\<exists>s. Generate src opts = Ok s \<and> s = write_uuid 0 (set_version_variant b)
    \<and> length s = 36
    \<and> s ! 8 = CHR ''-'' \<and> s ! 13 = CHR ''-'' \<and> s ! 18 = CHR ''-'' \<and> s ! 23 = CHR ''-''
    \<and> (\<forall>i<36. i \<notin> {8, 13, 18, 23} \<longrightarrow> s ! i \<in> set hexdigits)
    \<and> s ! 14 = CHR ''4''
    \<and> s ! 19 \<in> {CHR ''8'', CHR ''9'', CHR ''a'', CHR ''b''}"
proof -
  from assms(2) have len: "length b = 16"
    by (rule rand_Read_length)
  from assms have "Generate src opts = Ok (write_uuid 0 (set_version_variant b))"
    by (simp add: Generate_def Generate_from_def generateUUIDv4_def)
  with uuid_shape [OF len] show ?thesis
    by simp
qed

theorem guid_format_witness:
  "Format \<lparr>Format = FormatGUID, Length = - 3,
      UseLower = False, UseUpper = False, UseNumber = False, UseSymbol = False,
      MinLower = 5, MinUpper = 0, MinNumber = 0, MinSymbol = 0,
      Segments = 0, SegmentLength = 0\<rparr> = FormatGUID
   \<and> rand_Read (\<lambda>k. Gives 0x0F0E0D0C0B0A09080706050403020100) 0 16
     = Ok ([0, 1, 2, 3, 4, 5, 6, 7, 8, 9, 10, 11, 12, 13, 14, 15], 1)
   \<and> Generate (\<lambda>k. Gives 0x0F0E0D0C0B0A09080706050403020100)
     \<lparr>Format = FormatGUID, Length = - 3,
      UseLower = False, UseUpper = False, UseNumber = False, UseSymbol = False,
      MinLower = 5, MinUpper = 0, MinNumber = 0, MinSymbol = 0,
      Segments = 0, SegmentLength = 0\<rparr> = Ok ''00010203-0405-4607-8809-0a0b0c0d0e0f''"
proof -
  have bytes: "rand_Read (\<lambda>k. Gives 0x0F0E0D0C0B0A09080706050403020100) 0 16
     = Ok ([0, 1, 2, 3, 4, 5, 6, 7, 8, 9, 10, 11, 12, 13, 14, 15], 1)"
    by (simp add: rand_Read_def upt_rec)
  have uuid: "write_uuid 0 (set_version_variant [0, 1, 2, 3, 4, 5, 6, 7, 8, 9, 10, 11, 12, 13, 14, 15])
     = ''00010203-0405-4607-8809-0a0b0c0d0e0f''"
    by (simp add: set_version_variant_def hex_def hexdigits_def)
  from guid_format [of "\<lparr>Format = FormatGUID, Length = - 3,
      UseLower = False, UseUpper = False, UseNumber = False, UseSymbol = False,
      MinLower = 5, MinUpper = 0, MinNumber = 0, MinSymbol = 0,
      Segments = 0, SegmentLength = 0\<rparr>", OF _ bytes]
  show ?thesis
    by (simp add: bytes uuid)
qed

text \<open>
  C8, as the claim states it: a segment length of 0 or less fails with
  \<open>InvalidSegmentLength\<close>. The count of segments is checked first: with both
  parameters 0 the error is \<open>InvalidSegmentCount\<close>.
\<close>

theorem both_segment_parameters_zero:
  "sint (Segments cfg_zero_segments) \<le> 0 \<and> sint (SegmentLength cfg_zero_segments) \<le> 0
   \<and> Generate (\<lambda>k. Gives k) cfg_zero_segments = Error InvalidSegmentCount
   \<and> Generate (\<lambda>k. Gives k) cfg_zero_segments \<noteq> Error InvalidSegmentLength"
  by (simp add: cfg_zero_segments_def Generate_def Generate_from_def generateAppKey_def format_defs)

text \<open>
  C8, amended: for \<open>Format = appkey\<close>, \<open>Generate\<close> fails with \<open>InvalidSegmentCount\<close>
  when \<open>segments \<le> 0\<close>, and with \<open>InvalidSegmentLength\<close> when \<open>segments > 0\<close> and
  \<open>segmentLength \<le> 0\<close>. When both are positive and neither the length of the output,
  \<open>segments * segmentLength + segments - 1\<close>, nor the sum of the minima overflows a 64-bit
  integer, \<open>Generate\<close> is the generic generation of length \<open>segments * segmentLength\<close>
  on the same source (with its error or panic, if it has one), cut in order into
  \<open>segments\<close> groups of \<open>segmentLength\<close> characters that are joined by single dashes.
\<close>

theorem appkey_is_segmented_generic:
  assumes "Format opts = FormatAppKey"
  shows "(sint (Segments opts) \<le> 0 \<longrightarrow> Generate src opts = Error InvalidSegmentCount)
    \<and> (0 < sint (Segments opts) \<and> sint (SegmentLength opts) \<le> 0 \<longrightarrow>
         Generate src opts = Error InvalidSegmentLength)
    \<and> (0 < sint (Segments opts) \<and> 0 < sint (SegmentLength opts)
         \<and> sint (Segments opts) * sint (SegmentLength opts) + sint (Segments opts) - 1 < 2 ^ 63
         \<and> minima_sum opts < 2 ^ 63 \<longrightarrow>
         sint (Segments opts * SegmentLength opts) = sint (Segments opts) * sint (SegmentLength opts)
         \<and> Generate src opts =
            (case Generate src (opts\<lparr>Length := Segments opts * SegmentLength opts, Format := FormatGeneric\<rparr>) of
               Ok core \<Rightarrow> Ok (spec_segment_formatter (nat (sint (Segments opts)))
                             (nat (sint (SegmentLength opts))) core)
             | Error e \<Rightarrow> Error e
             | Panic \<Rightarrow> Panic))"
proof (intro conjI impI)
  assume "sint (Segments opts) \<le> 0"
  with assms show "Generate src opts = Error InvalidSegmentCount"
    by (simp add: Generate_appkey generateAppKey_def)
next
  assume "0 < sint (Segments opts) \<and> sint (SegmentLength opts) \<le> 0"
  with assms show "Generate src opts = Error InvalidSegmentLength"
    by (simp add: Generate_appkey generateAppKey_def)
next
  assume a: "0 < sint (Segments opts) \<and> 0 < sint (SegmentLength opts)
         \<and> sint (Segments opts) * sint (SegmentLength opts) + sint (Segments opts) - 1 < 2 ^ 63
         \<and> minima_sum opts < 2 ^ 63"
  then show "sint (Segments opts * SegmentLength opts) = sint (Segments opts) * sint (SegmentLength opts)"
    by (intro appkey_no_overflow(1)) simp_all
  from a assms show "Generate src opts =
            (case Generate src (opts\<lparr>Length := Segments opts * SegmentLength opts, Format := FormatGeneric\<rparr>) of
               Ok core \<Rightarrow> Ok (spec_segment_formatter (nat (sint (Segments opts)))
                             (nat (sint (SegmentLength opts))) core)
             | Error e \<Rightarrow> Error e
             | Panic \<Rightarrow> Panic)"
    by (intro appkey_refines_spec) simp_all
qed

theorem appkey_is_segmented_generic_witness:
  "Format cfg_zero_segments = FormatAppKey \<and> sint (Segments cfg_zero_segments) \<le> 0
   \<and> Generate (\<lambda>k. Gives (k + 9)) cfg_zero_segments = Error InvalidSegmentCount
   \<and> Format cfg_zero_segment_length = FormatAppKey
   \<and> 0 < sint (Segments cfg_zero_segment_length) \<and> sint (SegmentLength cfg_zero_segment_length) \<le> 0
   \<and> Generate (\<lambda>k. Gives (k + 9)) cfg_zero_segment_length = Error InvalidSegmentLength
   \<and> Format cfg_appkey = FormatAppKey
   \<and> 0 < sint (Segments cfg_appkey) \<and> 0 < sint (SegmentLength cfg_appkey)
   \<and> sint (Segments cfg_appkey) * sint (SegmentLength cfg_appkey) + sint (Segments cfg_appkey) - 1 < 2 ^ 63
   \<and> minima_sum cfg_appkey < 2 ^ 63
   \<and> Generate (\<lambda>k. Gives (k + 9)) (cfg_appkey\<lparr>Length := 6, Format := FormatGeneric\<rparr>) = Ok ''_oJn-m''
   \<and> segment_groups 3 2 ''_oJn-m'' = [''_o'', ''Jn'', ''-m'']
   \<and> Generate (\<lambda>k. Gives (k + 9)) cfg_appkey = Ok ''_o-Jn--m''"
proof -
  have f: "Format cfg_zero_segments = FormatAppKey" "Format cfg_zero_segment_length = FormatAppKey"
    "Format cfg_appkey = FormatAppKey"
    by (simp_all add: cfg_zero_segments_def cfg_zero_segment_length_def cfg_appkey_def)
  have a: "sint (Segments cfg_zero_segments) \<le> 0"
    by (simp add: cfg_zero_segments_def)
  have b: "0 < sint (Segments cfg_zero_segment_length) \<and> sint (SegmentLength cfg_zero_segment_length) \<le> 0"
    by (simp add: cfg_zero_segment_length_def)
  have c: "0 < sint (Segments cfg_appkey) \<and> 0 < sint (SegmentLength cfg_appkey)
     \<and> sint (Segments cfg_appkey) * sint (SegmentLength cfg_appkey) + sint (Segments cfg_appkey) - 1 < 2 ^ 63
     \<and> minima_sum cfg_appkey < 2 ^ 63"
    by (simp add: cfg_appkey_def minima_sum_def)
  have g: "Generate (\<lambda>k. Gives (k + 9)) (cfg_appkey\<lparr>Length := 6, Format := FormatGeneric\<rparr>) = Ok ''_oJn-m''"
    unfolding cfg_appkey_def by code_simp
  have s: "segment_groups 3 2 ''_oJn-m'' = [''_o'', ''Jn'', ''-m'']"
    by (simp add: segment_groups_def upt_rec)
  have p: "Segments cfg_appkey * SegmentLength cfg_appkey = 6"
    "nat (sint (Segments cfg_appkey)) = 3" "nat (sint (SegmentLength cfg_appkey)) = 2"
    by (simp_all add: cfg_appkey_def)
  from appkey_is_segmented_generic [OF f(1), of "\<lambda>k. Gives (k + 9)"] a
  have 1: "Generate (\<lambda>k. Gives (k + 9)) cfg_zero_segments = Error InvalidSegmentCount"
    by blast
  from appkey_is_segmented_generic [OF f(2), of "\<lambda>k. Gives (k + 9)"] b
  have 2: "Generate (\<lambda>k. Gives (k + 9)) cfg_zero_segment_length = Error InvalidSegmentLength"
    by blast
  from appkey_is_segmented_generic [OF f(3), of "\<lambda>k. Gives (k + 9)"] c
  have "Generate (\<lambda>k. Gives (k + 9)) cfg_appkey =
     (case Generate (\<lambda>k. Gives (k + 9))
         (cfg_appkey\<lparr>Length := Segments cfg_appkey * SegmentLength cfg_appkey, Format := FormatGeneric\<rparr>) of
        Ok core \<Rightarrow> Ok (spec_segment_formatter (nat (sint (Segments cfg_appkey)))
            (nat (sint (SegmentLength cfg_appkey))) core)
      | Error e \<Rightarrow> Error e
      | Panic \<Rightarrow> Panic)"
    by blast
  then have 3: "Generate (\<lambda>k. Gives (k + 9)) cfg_appkey = Ok ''_o-Jn--m''"
    unfolding p g by (simp add: spec_segment_formatter_def s)
  from f a b c g s 1 2 3 show ?thesis
    by blast
qed

text \<open>
  C9. For a generic or app-key configuration that reaches the validation of the class
  pool: if some class is toggled off and has a minimum above 0, \<open>Generate\<close> fails with
  the error for a minimum on a disabled class; if all four classes are toggled off and no
  minimum is above 0, it fails with \<open>NoClassesEnabled\<close>.
\<close>

theorem disabled_minimum_and_no_classes:
  assumes "reaches_validation opts"
  shows "(\<not> UseLower opts \<and> 0 < sint (MinLower opts) \<or> \<not> UseUpper opts \<and> 0 < sint (MinUpper opts)
          \<or> \<not> UseNumber opts \<and> 0 < sint (MinNumber opts) \<or> \<not> UseSymbol opts \<and> 0 < sint (MinSymbol opts)
        \<longrightarrow> (\<exists>c. Generate src opts = Error (DisabledClassMinimum c)))
      \<and> (\<not> UseLower opts \<and> \<not> UseUpper opts \<and> \<not> UseNumber opts \<and> \<not> UseSymbol opts
          \<and> sint (MinLower opts) \<le> 0 \<and> sint (MinUpper opts) \<le> 0
          \<and> sint (MinNumber opts) \<le> 0 \<and> sint (MinSymbol opts) \<le> 0
        \<longrightarrow> Generate src opts = Error NoClassesEnabled)"
proof (intro conjI impI)
  assume "\<not> UseLower opts \<and> 0 < sint (MinLower opts) \<or> \<not> UseUpper opts \<and> 0 < sint (MinUpper opts)
          \<or> \<not> UseNumber opts \<and> 0 < sint (MinNumber opts) \<or> \<not> UseSymbol opts \<and> 0 < sint (MinSymbol opts)"
  then have "\<exists>c. collectClassesAndValidate opts = Error (DisabledClassMinimum c)"
    by (auto simp: collect_eq)
  with assms show "\<exists>c. Generate src opts = Error (DisabledClassMinimum c)"
    by (auto dest: Generate_collect_Error)
next
  assume "\<not> UseLower opts \<and> \<not> UseUpper opts \<and> \<not> UseNumber opts \<and> \<not> UseSymbol opts
          \<and> sint (MinLower opts) \<le> 0 \<and> sint (MinUpper opts) \<le> 0
          \<and> sint (MinNumber opts) \<le> 0 \<and> sint (MinSymbol opts) \<le> 0"
  then have "collectClassesAndValidate opts = Error NoClassesEnabled"
    by (simp add: collect_eq pool_def)
  with assms show "Generate src opts = Error NoClassesEnabled"
    by (rule Generate_collect_Error)
qed

theorem disabled_minimum_and_no_classes_witness:
  "reaches_validation cfg_disabled_symbol_minimum
   \<and> \<not> UseSymbol cfg_disabled_symbol_minimum \<and> 0 < sint (MinSymbol cfg_disabled_symbol_minimum)
   \<and> (\<exists>c. Generate (\<lambda>k. Gives k) cfg_disabled_symbol_minimum = Error (DisabledClassMinimum c))
   \<and> reaches_validation cfg_no_classes
   \<and> \<not> UseLower cfg_no_classes \<and> \<not> UseUpper cfg_no_classes
   \<and> \<not> UseNumber cfg_no_classes \<and> \<not> UseSymbol cfg_no_classes
   \<and> Generate (\<lambda>k. Gives k) cfg_no_classes = Error NoClassesEnabled"
proof -
  have a: "reaches_validation cfg_disabled_symbol_minimum"
    by (simp add: reaches_validation_def cfg_disabled_symbol_minimum_def format_defs)
  have b: "reaches_validation cfg_no_classes"
    by (simp add: reaches_validation_def cfg_no_classes_def format_defs)
  from disabled_minimum_and_no_classes [OF a, of "\<lambda>k. Gives k"]
    disabled_minimum_and_no_classes [OF b, of "\<lambda>k. Gives k"] a b
  show ?thesis
    by (simp add: cfg_disabled_symbol_minimum_def cfg_no_classes_def)
qed

text \<open>
  C10. For every configuration with \<open>Format = generic\<close> and \<open>Length \<le> 0\<close>,
  \<open>Generate\<close> fails with the error "length must be > 0", whatever the minima and the
  toggles are: the check comes before the validation of the class pool, so a length of 0
  with all four classes disabled reports the length and not \<open>NoClassesEnabled\<close>.
\<close>

theorem generic_length_not_positive:
  assumes "Format opts = FormatGeneric" and "sint (Length opts) \<le> 0"
  shows "Generate src opts = Error LengthNotPositive"
  using assms by (simp add: Generate_def Generate_from_def generateGeneric_eq format_defs)

theorem generic_length_not_positive_witness:
  "Format \<lparr>Format = FormatGeneric, Length = 0,
      UseLower = False, UseUpper = False, UseNumber = False, UseSymbol = False,
      MinLower = 0, MinUpper = 0, MinNumber = 0, MinSymbol = 0,
      Segments = 4, SegmentLength = 4\<rparr> = FormatGeneric
   \<and> sint (0 :: go_int) \<le> 0
   \<and> Generate (\<lambda>k. Gives k)
     \<lparr>Format = FormatGeneric, Length = 0,
      UseLower = False, UseUpper = False, UseNumber = False, UseSymbol = False,
      MinLower = 0, MinUpper = 0, MinNumber = 0, MinSymbol = 0,
      Segments = 4, SegmentLength = 4\<rparr> = Error LengthNotPositive"
  using generic_length_not_positive [of
     "\<lparr>Format = FormatGeneric, Length = 0,
      UseLower = False, UseUpper = False, UseNumber = False, UseSymbol = False,
      MinLower = 0, MinUpper = 0, MinNumber = 0, MinSymbol = 0,
      Segments = 4, SegmentLength = 4\<rparr>" "\<lambda>k. Gives k"]
  by simp

end
